theory Spec2Isabelle
  imports Main
begin

section \<open>Device discovery of pkg/mount/mount.go\<close>

text \<open>
  A Go \<open>string\<close> is a sequence of bytes: \<open>len\<close> counts bytes and \<open>s[:n]\<close> keeps the
  first \<open>n\<close> bytes. It is modelled as \<^typ>\<open>string\<close> (a list of 8-bit characters).
\<close>

subsection \<open>Identifier translator\<close>

text \<open>
  \<open>strings.ReplaceAll(s, old, new)\<close> for a pattern \<open>old\<close> of one byte, which is the only
  way the file calls it (\<open>old = "-"\<close>): every occurrence of the byte is replaced by
  \<open>new\<close>, left to right.
\<close>

definition strings_ReplaceAll :: "string \<Rightarrow> char \<Rightarrow> string \<Rightarrow> string" where
  "strings_ReplaceAll s old new = concat (map (\<lambda>c. if c = old then new else [c]) s)"

text \<open>
  \<^verbatim>\<open>
  func diskUUIDToSerial(uuid string) string {
      uuidWithoutHyphen := strings.ReplaceAll(uuid, "-", "")
      if len(uuidWithoutHyphen) < 20 {
          return uuidWithoutHyphen
      }
      return uuidWithoutHyphen[:20]
  }
  \<close>
\<close>

definition diskUUIDToSerial :: "string \<Rightarrow> string" where
  "diskUUIDToSerial uuid =
     (let uuidWithoutHyphen = strings_ReplaceAll uuid (CHR ''-'') ''''
      in if length uuidWithoutHyphen < 20 then uuidWithoutHyphen
         else take 20 uuidWithoutHyphen)"

subsection \<open>Errors\<close>

text \<open>
  The error numbers a system call of the file can fail with. \<open>os.Stat\<close> wraps the
  number in a \<open>*fs.PathError\<close> that carries the operation and the path.
\<close>

datatype errno = ENOENT | EACCES | EIO | ELOOP | ENOTDIR | ENAMETOOLONG

text \<open>What \<open>ctx.Err()\<close> returns once the context is done.\<close>

datatype ctx_error = Canceled | DeadlineExceeded

text \<open>
  The error values that reach \<open>GetDevicePath\<close> or leave it: a path error of the file
  system, the error of a done context, the time-out of package \<open>wait\<close>, and the two
  errors \<open>GetDevicePath\<close> builds with \<open>fmt.Errorf\<close> (each carries the volume
  identifier it quotes).
\<close>

datatype error =
    PathError string string errno
  | ContextError ctx_error
  | ErrWaitTimeout
  | NotFoundInTime string
  | DevicePathEmpty string

text \<open>
  \<open>os.IsNotExist\<close> unwraps a path error and compares the error number with
  \<open>ENOENT\<close>; it is false for every other error.
\<close>

fun os_IsNotExist :: "error \<Rightarrow> bool" where
  "os_IsNotExist (PathError op path e) = (e = ENOENT)"
| "os_IsNotExist _ = False"

text \<open>
  Modelled from the spec: \<open>wait.Interrupted\<close> belongs to the same library. It is true
  for the time-out of package \<open>wait\<close> and for the two context errors (the merged
  "not found within time budget" class of section 4.2), and false for \<open>nil\<close> and for
  every other error.
\<close>

fun wait_Interrupted :: "error option \<Rightarrow> bool" where
  "wait_Interrupted (Some ErrWaitTimeout) = True"
| "wait_Interrupted (Some (ContextError e)) = True"
| "wait_Interrupted _ = False"

subsection \<open>The host: capabilities, history and state\<close>

text \<open>
  The host is outside the program. It is an oracle that says how the \<open>k\<close>-th call of
  each capability answers: \<open>os.Stat\<close> (\<open>None\<close> is success), the observation of
  \<open>ctx.Done()\<close> (\<open>None\<close> is not done), \<open>os.ReadDir\<close>, \<open>os.WriteFile\<close> and the
  external command. Any behaviour of the file system over time, of the caller's context
  and of the rescan machinery is one such oracle.
\<close>

record env =
  stat_oracle :: "nat \<Rightarrow> string \<Rightarrow> errno option"
  ctx_oracle :: "nat \<Rightarrow> ctx_error option"
  readdir_oracle :: "nat \<Rightarrow> string \<Rightarrow> errno + string list"
  writefile_oracle :: "nat \<Rightarrow> string \<Rightarrow> errno option"
  exec_oracle :: "nat \<Rightarrow> string \<Rightarrow> string list \<Rightarrow> bool"

text \<open>
  What the program did to the host, in order. \<open>EvCondition\<close> marks one invocation of
  the condition function by the backoff loop (one attempt); \<open>EvWait\<close> is one entry
  into the wait between two attempts; the others are the calls of the capabilities and
  of the logger.
\<close>

datatype event =
    EvCondition
  | EvStat string "errno option"
  | EvWait
  | EvReadDir string
  | EvWriteFile string string "errno option"
  | EvExec string "string list"
  | EvLogInfo string
  | EvLogError string

text \<open>
  The state threaded through a call: how often each capability was called, the history,
  and the variable \<open>devicePath\<close> that the closure in \<open>GetDevicePath\<close> captures and
  assigns.
\<close>

record state =
  stat_calls :: nat
  ctx_polls :: nat
  readdir_calls :: nat
  writefile_calls :: nat
  exec_calls :: nat
  trace :: "event list"
  devicePath :: string

definition record_event :: "event \<Rightarrow> state \<Rightarrow> state" where
  "record_event e st = st\<lparr>trace := trace st @ [e]\<rparr>"

definition os_Stat :: "env \<Rightarrow> string \<Rightarrow> state \<Rightarrow> error option \<times> state" where
  "os_Stat env name st =
     (let r = stat_oracle env (stat_calls st) name
      in (map_option (PathError ''stat'' name) r,
          record_event (EvStat name r) (st\<lparr>stat_calls := Suc (stat_calls st)\<rparr>)))"

text \<open>
  \<open>select { case <-ctx.Done(): return ctx.Err(); default: }\<close>: one observation of the
  context.
\<close>

definition ctx_poll :: "env \<Rightarrow> state \<Rightarrow> ctx_error option \<times> state" where
  "ctx_poll env st = (ctx_oracle env (ctx_polls st), st\<lparr>ctx_polls := Suc (ctx_polls st)\<rparr>)"

text \<open>
  \<open>select { case <-ctx.Done(): return ctx.Err(); case <-time.After(waitBeforeRetry): }\<close>:
  the wait between two attempts, which the context can end early. The oracle says
  which of the two channels fires.
\<close>

definition backoff_wait :: "env \<Rightarrow> state \<Rightarrow> ctx_error option \<times> state" where
  "backoff_wait env st = ctx_poll env (record_event EvWait st)"

definition os_ReadDir :: "env \<Rightarrow> string \<Rightarrow> state \<Rightarrow> (errno + string list) \<times> state" where
  "os_ReadDir env name st =
     (readdir_oracle env (readdir_calls st) name,
      record_event (EvReadDir name) (st\<lparr>readdir_calls := Suc (readdir_calls st)\<rparr>))"

definition os_WriteFile :: "env \<Rightarrow> string \<Rightarrow> string \<Rightarrow> state \<Rightarrow> errno option \<times> state" where
  "os_WriteFile env name data st =
     (let r = writefile_oracle env (writefile_calls st) name
      in (r, record_event (EvWriteFile name data r)
               (st\<lparr>writefile_calls := Suc (writefile_calls st)\<rparr>)))"

text \<open>\<open>m.Exec.Command(cmd, args...).CombinedOutput()\<close>; the result says whether it failed.\<close>

definition exec_CombinedOutput :: "env \<Rightarrow> string \<Rightarrow> string list \<Rightarrow> state \<Rightarrow> bool \<times> state" where
  "exec_CombinedOutput env cmd args st =
     (exec_oracle env (exec_calls st) cmd args,
      record_event (EvExec cmd args) (st\<lparr>exec_calls := Suc (exec_calls st)\<rparr>))"

subsection \<open>Path joining of the standard library\<close>

definition os_IsPathSeparator :: "char \<Rightarrow> bool" where
  "os_IsPathSeparator c = (c = CHR ''/'')"

text \<open>
  The inner loop of \<open>filepath.Clean\<close> at a \<open>..\<close> element, after \<open>out.w--\<close>:
  \<open>for out.w > dotdot && !os.IsPathSeparator(out.index(out.w)) { out.w-- }\<close>.
\<close>

fun backtrack :: "string \<Rightarrow> nat \<Rightarrow> nat \<Rightarrow> nat" where
  "backtrack buf dotdot 0 = 0"
| "backtrack buf dotdot (Suc w) =
     (if Suc w > dotdot \<and> \<not> os_IsPathSeparator (buf ! Suc w)
      then backtrack buf dotdot w else Suc w)"

text \<open>
  The main loop of \<open>filepath.Clean\<close> on Unix: the second argument is the input still
  to read (\<open>path[r:]\<close>), \<open>out\<close> is the buffer written so far (\<open>out.w\<close> is its length)
  and \<open>dotdot\<close> is the index where a \<open>..\<close> must stop. The cases are those of the
  \<open>switch\<close>: an empty element, a \<open>.\<close> element, a \<open>..\<close> element, a real element.
\<close>

function clean_loop :: "bool \<Rightarrow> string \<Rightarrow> string \<Rightarrow> nat \<Rightarrow> string" where
  "clean_loop rooted [] out dotdot = out"
| "clean_loop rooted (c # cs) out dotdot =
     (if os_IsPathSeparator c then clean_loop rooted cs out dotdot
      else if c = CHR ''.'' \<and> (cs = [] \<or> os_IsPathSeparator (hd cs))
        then clean_loop rooted cs out dotdot
      else if c = CHR ''.'' \<and> hd cs = CHR ''.''
                \<and> (tl cs = [] \<or> os_IsPathSeparator (hd (tl cs)))
        then (if length out > dotdot
                then clean_loop rooted (tl cs)
                       (take (backtrack out dotdot (length out - 1)) out) dotdot
              else if \<not> rooted
                then (let out' = (if length out > 0 then out @ ''/'' else out) @ ''..''
                      in clean_loop rooted (tl cs) out' (length out'))
              else clean_loop rooted (tl cs) out dotdot)
      else (let out' = (if rooted \<and> length out \<noteq> 1 \<or> \<not> rooted \<and> length out \<noteq> 0
                        then out @ ''/'' else out)
            in clean_loop rooted (dropWhile (\<lambda>x. \<not> os_IsPathSeparator x) cs)
                 (out' @ c # takeWhile (\<lambda>x. \<not> os_IsPathSeparator x) cs) dotdot))"
  by pat_completeness auto
termination
proof (relation "measure (\<lambda>(rooted, path, out, dotdot). length path)")
  show "wf (measure (\<lambda>(rooted, path, out, dotdot). length path))" by simp
qed (auto simp: less_Suc_eq_le length_dropWhile_le)

definition filepath_Clean :: "string \<Rightarrow> string" where
  "filepath_Clean path =
     (if path = [] then ''.''
      else let rooted = os_IsPathSeparator (hd path);
               out = (if rooted then clean_loop True (tl path) ''/'' 1
                      else clean_loop False path [] 0)
           in if out = [] then ''.'' else out)"

fun strings_Join :: "string list \<Rightarrow> string \<Rightarrow> string" where
  "strings_Join [] sep = []"
| "strings_Join [e] sep = e"
| "strings_Join (e # elems) sep = e @ sep @ strings_Join elems sep"

text \<open>
  \<open>filepath.Join\<close>: empty leading elements are skipped, the rest is joined with the
  separator and cleaned; with nothing but empty elements the result is empty.
\<close>

fun filepath_Join :: "string list \<Rightarrow> string" where
  "filepath_Join [] = []"
| "filepath_Join (e # elem) =
     (if e \<noteq> [] then filepath_Clean (strings_Join (e # elem) ''/'')
      else filepath_Join elem)"

subsection \<open>Looking a device up by its serial\<close>

definition diskIDPath :: string where
  "diskIDPath = ''/dev/disk/by-id''"

definition sourcePathPrefixes :: "string list" where
  "sourcePathPrefixes = [''virtio-'', ''scsi-'', ''scsi-0QEMU_QEMU_HARDDISK_'']"

text \<open>
  The body of \<open>for _, prefix := range sourcePathPrefixes\<close> in
  \<open>getDevicePathBySerialID\<close>: the first candidate whose \<open>os.Stat\<close> succeeds is
  returned; an error that is not "does not exist" is returned at once; when the
  prefixes run out the result is the empty path and no error.
\<close>

fun stat_candidates :: "env \<Rightarrow> string \<Rightarrow> string list \<Rightarrow> state \<Rightarrow> (string \<times> error option) \<times> state" where
  "stat_candidates env serial [] st = (('''', None), st)"
| "stat_candidates env serial (prefix # rest) st =
     (let source = filepath_Join [diskIDPath, prefix @ serial]
      in case os_Stat env source st of
           (None, st1) \<Rightarrow> ((source, None), st1)
         | (Some err, st1) \<Rightarrow>
             if \<not> os_IsNotExist err then (('''', Some err), st1)
             else stat_candidates env serial rest st1)"

definition getDevicePathBySerialID :: "env \<Rightarrow> string \<Rightarrow> state \<Rightarrow> (string \<times> error option) \<times> state" where
  "getDevicePathBySerialID env volumeID st =
     stat_candidates env (diskUUIDToSerial volumeID) sourcePathPrefixes st"

subsection \<open>Rescan trigger\<close>

text \<open>
  The body of \<open>for _, f := range dirs\<close> in \<open>probeVolume\<close>: the payload \<open>- - -\<close> is
  written to the \<open>scan\<close> file of each entry; a failed write is logged and the loop
  goes on.
\<close>

fun scan_hosts :: "env \<Rightarrow> string \<Rightarrow> string list \<Rightarrow> state \<Rightarrow> state" where
  "scan_hosts env scsiPath [] st = st"
| "scan_hosts env scsiPath (f # dirs) st =
     (let name = scsiPath @ f @ ''/scan'';
          data = ''- - -'';
          st1 = record_event (EvLogInfo ''Triggering SCSI host rescan'') st
      in case os_WriteFile env name data st1 of
           (Some err, st2) \<Rightarrow>
             scan_hosts env scsiPath dirs
               (record_event (EvLogError ''Failed to rescan scsi host '') st2)
         | (None, st2) \<Rightarrow> scan_hosts env scsiPath dirs st2)"

text \<open>\<open>probeVolume\<close> has no result: it returns the state only.\<close>

definition probeVolume :: "env \<Rightarrow> state \<Rightarrow> state" where
  "probeVolume env st =
     (let st1 = record_event (EvLogInfo ''Scanning SCSI host'') st;
          scsiPath = ''/sys/class/scsi_host/'';
          st3 = (case os_ReadDir env scsiPath st1 of
                   (Inr dirs, st2) \<Rightarrow> scan_hosts env scsiPath dirs st2
                 | (Inl err, st2) \<Rightarrow> record_event (EvLogError ''Failed to read dir '') st2)
      in case exec_CombinedOutput env ''udevadm'' [''trigger''] st3 of
           (True, st4) \<Rightarrow> record_event (EvLogError ''Error running udevadm trigger'') st4
         | (False, st4) \<Rightarrow> st4)"

subsection \<open>Backoff loop of package wait\<close>

text \<open>
  Modelled from the spec: \<open>wait.ExponentialBackoffWithContext\<close> belongs to the library
  \<open>k8s.io/apimachinery\<close>, whose source is not among the files of the repository. The
  model follows section 4.2 of the specification (check the cancellation signal, run the
  check, stop on success or on an error, stop when the steps are used up, otherwise wait
  under the cancellation signal and go on) and the loop the library documents:
  \<^verbatim>\<open>
  for backoff.Steps > 0 {
      select { case <-ctx.Done(): return ctx.Err(); default: }
      if ok, err := condition(ctx); err != nil || ok { return err }
      if backoff.Steps == 1 { break }
      waitBeforeRetry := backoff.Step()
      select { case <-ctx.Done(): return ctx.Err(); case <-time.After(waitBeforeRetry): }
  }
  return ErrWaitTimeout
  \<close>
  \<open>backoff.Step()\<close> takes one from \<open>Steps\<close>. \<open>GetDevicePath\<close> sets \<open>Duration\<close> to
  one second and \<open>Factor\<close> to 1.1 and leaves \<open>Cap\<close> and \<open>Jitter\<close> zero, so the
  durations decide how long a wait lasts and nothing else: the model keeps \<open>Steps\<close>,
  and a wait is the event \<open>EvWait\<close>. The first argument after the host is \<open>Steps\<close>;
  the equation for \<open>0\<close> is the loop condition failing, the one for \<open>Suc steps\<close> is one
  turn of the loop. \<open>EvCondition\<close> is recorded where the condition function is called.
\<close>

fun ExponentialBackoffWithContext ::
  "env \<Rightarrow> nat \<Rightarrow> (state \<Rightarrow> (bool \<times> error option) \<times> state) \<Rightarrow> state \<Rightarrow> error option \<times> state" where
  "ExponentialBackoffWithContext env 0 condition st = (Some ErrWaitTimeout, st)"
| "ExponentialBackoffWithContext env (Suc steps) condition st =
     (case ctx_poll env st of
        (Some e, st1) \<Rightarrow> (Some (ContextError e), st1)
      | (None, st1) \<Rightarrow>
          (case condition (record_event EvCondition st1) of
             ((ok, err), st2) \<Rightarrow>
               if err \<noteq> None \<or> ok then (err, st2)
               else if Suc steps = 1 then (Some ErrWaitTimeout, st2)
               else (case backoff_wait env st2 of
                       (Some e, st3) \<Rightarrow> (Some (ContextError e), st3)
                     | (None, st3) \<Rightarrow> ExponentialBackoffWithContext env steps condition st3)))"

subsection \<open>Device resolver\<close>

text \<open>The closure that \<open>GetDevicePath\<close> passes to the backoff loop.\<close>

definition condition_func :: "env \<Rightarrow> string \<Rightarrow> state \<Rightarrow> (bool \<times> error option) \<times> state" where
  "condition_func env volumeID st =
     (case getDevicePathBySerialID env volumeID st of
        ((path, Some err), st1) \<Rightarrow> ((False, Some err), st1)
      | ((path, None), st1) \<Rightarrow>
          if path \<noteq> '''' then ((True, None), st1\<lparr>devicePath := path\<rparr>)
          else ((False, None), probeVolume env st1))"

text \<open>
  \<^verbatim>\<open>
  backoff := wait.Backoff{Duration: 1 * time.Second, Factor: 1.1, Steps: 15}
  var devicePath string
  err := wait.ExponentialBackoffWithContext(ctx, backoff, func ...)
  if wait.Interrupted(err) {
      return "", fmt.Errorf("failed to find device for the volumeID: %q within the alloted time", volumeID)
  } else if devicePath == "" {
      return "", fmt.Errorf("device path was empty for volumeID: %q", volumeID)
  }
  return devicePath, nil
  \<close>
\<close>

definition backoff_Steps :: nat where
  "backoff_Steps = 15"

definition GetDevicePath :: "env \<Rightarrow> string \<Rightarrow> state \<Rightarrow> (string \<times> error option) \<times> state" where
  "GetDevicePath env volumeID st =
     (case ExponentialBackoffWithContext env backoff_Steps (condition_func env volumeID)
             (st\<lparr>devicePath := ''''\<rparr>) of
        (err, st1) \<Rightarrow>
          if wait_Interrupted err then (('''', Some (NotFoundInTime volumeID)), st1)
          else if devicePath st1 = '''' then (('''', Some (DevicePathEmpty volumeID)), st1)
          else ((devicePath st1, None), st1))"

text \<open>The events a call added to the history.\<close>

definition events_since :: "state \<Rightarrow> state \<Rightarrow> event list" where
  "events_since st st' = drop (length (trace st)) (trace st')"

text \<open>A state to start from: nothing was called yet.\<close>

definition init_state :: state where
  "init_state = \<lparr>stat_calls = 0, ctx_polls = 0, readdir_calls = 0, writefile_calls = 0,
                  exec_calls = 0, trace = [], devicePath = ''''\<rparr>"

text \<open>Kinds of events: a call of \<open>os.Stat\<close>, and what \<open>probeVolume\<close> can leave.\<close>

fun is_stat :: "event \<Rightarrow> bool" where
  "is_stat (EvStat name r) = True"
| "is_stat _ = False"

fun is_probe_event :: "event \<Rightarrow> bool" where
  "is_probe_event (EvReadDir name) = True"
| "is_probe_event (EvWriteFile name data r) = True"
| "is_probe_event (EvExec cmd args) = True"
| "is_probe_event (EvLogInfo msg) = True"
| "is_probe_event (EvLogError msg) = True"
| "is_probe_event _ = False"

text \<open>
  Hosts to run the resolver on. In \<open>static_host fs\<close> the file system \<open>fs\<close> never
  changes, the context is never done and every rescan succeeds on two SCSI hosts. In
  \<open>broken_rescan_host fs\<close> the file system is the same but the directory of SCSI
  hosts cannot be read and the external command fails. In \<open>cancelled_host fs n\<close> the
  context is done from its \<open>n\<close>-th observation on.
\<close>

definition static_host :: "(string \<Rightarrow> errno option) \<Rightarrow> env" where
  "static_host fs =
     \<lparr>stat_oracle = (\<lambda>k. fs), ctx_oracle = (\<lambda>k. None),
      readdir_oracle = (\<lambda>k name. Inr [''host0'', ''host1'']),
      writefile_oracle = (\<lambda>k name. None),
      exec_oracle = (\<lambda>k cmd args. False)\<rparr>"

definition broken_rescan_host :: "(string \<Rightarrow> errno option) \<Rightarrow> env" where
  "broken_rescan_host fs =
     \<lparr>stat_oracle = (\<lambda>k. fs), ctx_oracle = (\<lambda>k. None),
      readdir_oracle = (\<lambda>k name. Inl EACCES),
      writefile_oracle = (\<lambda>k name. Some EIO),
      exec_oracle = (\<lambda>k cmd args. True)\<rparr>"

definition cancelled_host :: "(string \<Rightarrow> errno option) \<Rightarrow> nat \<Rightarrow> env" where
  "cancelled_host fs n =
     \<lparr>stat_oracle = (\<lambda>k. fs), ctx_oracle = (\<lambda>k. if n \<le> k then Some Canceled else None),
      readdir_oracle = (\<lambda>k name. Inr [''host0'', ''host1'']),
      writefile_oracle = (\<lambda>k name. None),
      exec_oracle = (\<lambda>k cmd args. False)\<rparr>"

text \<open>
  File systems for these hosts: nothing exists; everything exists; every \<open>os.Stat\<close>
  is refused; one where the \<open>virtio-\<close> candidate of the serial \<open>abc\<close> is refused
  while everything else exists; and one where only the \<open>scsi-\<close> candidate of that
  serial exists.
\<close>

definition fs_absent :: "string \<Rightarrow> errno option" where
  "fs_absent name = Some ENOENT"

definition fs_present :: "string \<Rightarrow> errno option" where
  "fs_present name = None"

definition fs_denied :: "string \<Rightarrow> errno option" where
  "fs_denied name = Some EACCES"

definition fs_first_denied :: "string \<Rightarrow> errno option" where
  "fs_first_denied name =
     (if name = ''/dev/disk/by-id/virtio-abc'' then Some EACCES else None)"

definition fs_scsi_only :: "string \<Rightarrow> errno option" where
  "fs_scsi_only name =
     (if name = ''/dev/disk/by-id/scsi-abc'' then None else Some ENOENT)"

text \<open>
  What the resolution loop reads of a state: the positions in the answers of
  \<open>os.Stat\<close> and of the context, and the captured variable.
\<close>

definition same_view :: "state \<Rightarrow> state \<Rightarrow> bool" where
  "same_view s1 s2 =
     (stat_calls s1 = stat_calls s2 \<and> ctx_polls s1 = ctx_polls s2
      \<and> devicePath s1 = devicePath s2)"

declare clean_loop.simps [simp del]

declare filepath_Join.simps [simp del]

section \<open>Properties of the identifier translator\<close>

lemma strings_ReplaceAll_empty_filter:
  "strings_ReplaceAll s old '''' = filter (\<lambda>c. c \<noteq> old) s"
  unfolding strings_ReplaceAll_def by (induction s) simp_all

lemma diskUUIDToSerial_take:
  "diskUUIDToSerial uuid = take 20 (filter (\<lambda>c. c \<noteq> CHR ''-'') uuid)"
  unfolding diskUUIDToSerial_def Let_def strings_ReplaceAll_empty_filter by simp

lemma diskUUIDToSerial_length: "length (diskUUIDToSerial uuid) \<le> 20"
  unfolding diskUUIDToSerial_take by simp

lemma diskUUIDToSerial_no_hyphen: "CHR ''-'' \<notin> set (diskUUIDToSerial uuid)"
proof
  assume "CHR ''-'' \<in> set (diskUUIDToSerial uuid)"
  then have "CHR ''-'' \<in> set (filter (\<lambda>c. c \<noteq> CHR ''-'') uuid)"
    unfolding diskUUIDToSerial_take by (rule in_set_takeD)
  then show False by simp
qed

text \<open>
  Claim C1. For every input string the translator returns a string of at most 20
  characters without a hyphen; when the input without its hyphens has fewer than 20
  characters the result is that hyphen-free string, and otherwise it is the first 20
  characters of the hyphen-free string.
\<close>

theorem diskUUIDToSerial_spec:
  "length (diskUUIDToSerial uuid) \<le> 20
   \<and> CHR ''-'' \<notin> set (diskUUIDToSerial uuid)
   \<and> (length (filter (\<lambda>c. c \<noteq> CHR ''-'') uuid) < 20
        \<longrightarrow> diskUUIDToSerial uuid = filter (\<lambda>c. c \<noteq> CHR ''-'') uuid)
   \<and> (\<not> length (filter (\<lambda>c. c \<noteq> CHR ''-'') uuid) < 20
        \<longrightarrow> diskUUIDToSerial uuid = take 20 (filter (\<lambda>c. c \<noteq> CHR ''-'') uuid))"
proof (intro conjI impI)
  show "length (diskUUIDToSerial uuid) \<le> 20"
    by (rule diskUUIDToSerial_length)
  show "CHR ''-'' \<notin> set (diskUUIDToSerial uuid)"
    by (rule diskUUIDToSerial_no_hyphen)
  show "diskUUIDToSerial uuid = filter (\<lambda>c. c \<noteq> CHR ''-'') uuid"
    if "length (filter (\<lambda>c. c \<noteq> CHR ''-'') uuid) < 20"
    using that unfolding diskUUIDToSerial_take by simp
  show "diskUUIDToSerial uuid = take 20 (filter (\<lambda>c. c \<noteq> CHR ''-'') uuid)"
    by (rule diskUUIDToSerial_take)
qed

text \<open>
  A short identifier comes back without its hyphen; a volume UUID comes back as its first
  20 hexadecimal digits.
\<close>

theorem diskUUIDToSerial_spec_witness:
  "length (filter (\<lambda>c. c \<noteq> CHR ''-'') ''abcd-ef'') < 20
   \<and> diskUUIDToSerial ''abcd-ef'' = ''abcdef''
   \<and> \<not> length (filter (\<lambda>c. c \<noteq> CHR ''-'') ''0f3f2a09-37aa-4c1e-9d55-6b1f0e2d7c88'') < 20
   \<and> diskUUIDToSerial ''0f3f2a09-37aa-4c1e-9d55-6b1f0e2d7c88'' = ''0f3f2a0937aa4c1e9d55''"
  using diskUUIDToSerial_spec [of "''abcd-ef''"]
    diskUUIDToSerial_spec [of "''0f3f2a09-37aa-4c1e-9d55-6b1f0e2d7c88''"]
  by simp

text \<open>
  Claim C9, as the specification words it: the input \<open>1234-5678-9abc-def0-1111\<close> is
  said to lose a character and come back as \<open>123456789abcdef0111\<close>. The translator
  does not return that string.
\<close>

theorem diskUUIDToSerial_example_counterexample:
  "diskUUIDToSerial ''1234-5678-9abc-def0-1111'' \<noteq> ''123456789abcdef0111''"
  unfolding diskUUIDToSerial_take by simp

text \<open>
  Claim C9, amended. The input \<open>1234-5678-9abc-def0-1111\<close> has five groups of four
  characters, so without its hyphens it is \<open>123456789abcdef01111\<close>, a string of
  exactly 20 characters, and the translator returns all 20 of them: nothing is cut.
\<close>

theorem diskUUIDToSerial_example:
  "strings_ReplaceAll ''1234-5678-9abc-def0-1111'' (CHR ''-'') '''' = ''123456789abcdef01111''
   \<and> length ''123456789abcdef01111'' = 20
   \<and> diskUUIDToSerial ''1234-5678-9abc-def0-1111'' = ''123456789abcdef01111''"
  unfolding diskUUIDToSerial_take strings_ReplaceAll_empty_filter by simp

text \<open>
  Claim C10. The translator is idempotent: translating a serial again gives the same
  serial, because it has no hyphen left and no more than 20 characters.
\<close>

theorem diskUUIDToSerial_idempotent:
  "diskUUIDToSerial (diskUUIDToSerial s) = diskUUIDToSerial s"
proof -
  let ?t = "take 20 (filter (\<lambda>c. c \<noteq> CHR ''-'') s)"
  have "\<forall>c \<in> set ?t. c \<noteq> CHR ''-''"
    by (auto dest: in_set_takeD)
  then have "filter (\<lambda>c. c \<noteq> CHR ''-'') ?t = ?t"
    by (simp only: filter_id_conv)
  then show ?thesis
    unfolding diskUUIDToSerial_take by simp
qed

section \<open>Paths of the candidates\<close>

lemma filepath_Clean_nonempty: "filepath_Clean path \<noteq> []"
  unfolding filepath_Clean_def Let_def by simp

lemma filepath_Join_nonempty: "e \<noteq> [] \<Longrightarrow> filepath_Join (e # elem) \<noteq> []"
  by (simp add: filepath_Join.simps filepath_Clean_nonempty)

lemma candidate_nonempty: "filepath_Join [diskIDPath, x] \<noteq> []"
  by (rule filepath_Join_nonempty) (simp add: diskIDPath_def)

lemma clean_loop_plain_element:
  assumes "\<forall>x \<in> set (c # cs). \<not> os_IsPathSeparator x" and "c \<noteq> CHR ''.''" and "length out \<noteq> 1"
  shows "clean_loop True (c # cs) out dotdot = out @ ''/'' @ c # cs"
proof -
  have d: "dropWhile (\<lambda>x. \<not> os_IsPathSeparator x) cs = []"
    and t: "takeWhile (\<lambda>x. \<not> os_IsPathSeparator x) cs = cs"
    using assms(1) by simp_all
  have "\<not> os_IsPathSeparator c" using assms(1) by simp
  then show ?thesis using assms(2,3)
    by (simp only: clean_loop.simps d t Let_def if_False if_True simp_thms append_assoc append_Cons append_Nil)
qed

lemma clean_loop_diskIDPath:
  "clean_loop True (''dev/disk/by-id/'' @ x) ''/'' 1 = clean_loop True x ''/dev/disk/by-id'' 1"
  by (simp add: clean_loop.simps os_IsPathSeparator_def)

lemma filepath_Clean_diskIDPath:
  "filepath_Clean (diskIDPath @ ''/'' @ x) = 
     (if clean_loop True x ''/dev/disk/by-id'' 1 = [] then ''.'' else clean_loop True x ''/dev/disk/by-id'' 1)"
proof -
  have "diskIDPath @ ''/'' @ x = CHR ''/'' # (''dev/disk/by-id/'' @ x)"
    unfolding diskIDPath_def by simp
  then show ?thesis
    unfolding filepath_Clean_def Let_def
    by (simp only: list.sel list.simps if_False if_True os_IsPathSeparator_def clean_loop_diskIDPath simp_thms)
qed

lemma candidate_literal:
  assumes "CHR ''/'' \<notin> set serial" and "prefix \<in> set sourcePathPrefixes"
  shows "filepath_Join [diskIDPath, prefix @ serial] = diskIDPath @ ''/'' @ prefix @ serial"
proof -
  have "prefix = ''virtio-'' \<or> prefix = ''scsi-'' \<or> prefix = ''scsi-0QEMU_QEMU_HARDDISK_''"
    using assms(2) unfolding sourcePathPrefixes_def by simp
  then obtain c cs where p: "prefix = c # cs" and c: "c \<noteq> CHR ''.''" and cs: "CHR ''/'' \<notin> set (c # cs)"
    by fastforce
  have nosep: "\<forall>x \<in> set (c # (cs @ serial)). \<not> os_IsPathSeparator x"
    using cs assms(1) unfolding os_IsPathSeparator_def by auto
  have plain: "clean_loop True (c # (cs @ serial)) ''/dev/disk/by-id'' 1
          = ''/dev/disk/by-id'' @ ''/'' @ c # (cs @ serial)"
    by (rule clean_loop_plain_element [OF nosep c]) simp
  have "filepath_Join [diskIDPath, prefix @ serial] = filepath_Clean (diskIDPath @ ''/'' @ (c # (cs @ serial)))"
    unfolding p by (simp add: diskIDPath_def filepath_Join.simps)
  also have "\<dots> = ''/dev/disk/by-id'' @ ''/'' @ c # (cs @ serial)"
    unfolding filepath_Clean_diskIDPath plain by simp
  finally show ?thesis
    unfolding p diskIDPath_def by simp
qed

section \<open>Looking a device up: effects and results\<close>

lemma stat_candidates_frame:
  "ctx_polls (snd (stat_candidates env serial ps st)) = ctx_polls st
   \<and> readdir_calls (snd (stat_candidates env serial ps st)) = readdir_calls st
   \<and> writefile_calls (snd (stat_candidates env serial ps st)) = writefile_calls st
   \<and> exec_calls (snd (stat_candidates env serial ps st)) = exec_calls st
   \<and> devicePath (snd (stat_candidates env serial ps st)) = devicePath st"
  by (induction ps arbitrary: st)
     (simp_all add: os_Stat_def Let_def record_event_def split: option.splits)

lemma stat_candidates_trace:
  "\<exists>evs. trace (snd (stat_candidates env serial ps st)) = trace st @ evs
         \<and> (\<forall>e \<in> set evs. is_stat e) \<and> length evs \<le> length ps"
proof (induction ps arbitrary: st)
  case Nil
  show ?case by simp
next
  case (Cons prefix rest)
  let ?source = "filepath_Join [diskIDPath, prefix @ serial]"
  let ?r = "stat_oracle env (stat_calls st) ?source"
  let ?st1 = "record_event (EvStat ?source ?r) (st\<lparr>stat_calls := Suc (stat_calls st)\<rparr>)"
  have t1: "trace ?st1 = trace st @ [EvStat ?source ?r]"
    by (simp add: record_event_def)
  show ?case
  proof (cases "?r = Some ENOENT")
    case True
    from Cons.IH [of ?st1] obtain evs where
      "trace (snd (stat_candidates env serial rest ?st1)) = trace ?st1 @ evs"
      "\<forall>e \<in> set evs. is_stat e" "length evs \<le> length rest"
      by blast
    then have "trace (snd (stat_candidates env serial (prefix # rest) st))
                 = trace st @ (EvStat ?source ?r # evs)
               \<and> (\<forall>e \<in> set (EvStat ?source ?r # evs). is_stat e)
               \<and> length (EvStat ?source ?r # evs) \<le> length (prefix # rest)"
      using True t1 by (simp add: os_Stat_def Let_def)
    then show ?thesis by blast
  next
    case False
    then have "trace (snd (stat_candidates env serial (prefix # rest) st))
                 = trace st @ [EvStat ?source ?r]"
      using t1 by (cases ?r) (simp_all add: os_Stat_def Let_def)
    then show ?thesis by fastforce
  qed
qed

lemma stat_candidates_found:
  assumes "stat_candidates env serial ps st = ((p, None), st')" and "p \<noteq> []"
  shows "\<exists>prefix \<in> set ps. p = filepath_Join [diskIDPath, prefix @ serial]
           \<and> (\<exists>evs. trace st' = trace st @ evs \<and> EvStat p None \<in> set evs)"
  using assms
proof (induction ps arbitrary: st)
  case Nil
  then show ?case by simp
next
  case (Cons prefix rest)
  let ?source = "filepath_Join [diskIDPath, prefix @ serial]"
  let ?r = "stat_oracle env (stat_calls st) ?source"
  let ?st1 = "record_event (EvStat ?source ?r) (st\<lparr>stat_calls := Suc (stat_calls st)\<rparr>)"
  have t1: "trace ?st1 = trace st @ [EvStat ?source ?r]"
    by (simp add: record_event_def)
  show ?case
  proof (cases ?r)
    case None
    then have "p = ?source" and "st' = ?st1"
      using Cons.prems(1) by (auto simp add: os_Stat_def Let_def)
    then have "trace st' = trace st @ [EvStat p None] \<and> EvStat p None \<in> set [EvStat p None]"
      using t1 None by simp
    then show ?thesis using \<open>p = ?source\<close> by (metis list.set_intros(1))
  next
    case (Some e)
    then have rec: "stat_candidates env serial rest ?st1 = ((p, None), st')" and "e = ENOENT"
      using Cons.prems(1) by (simp_all add: os_Stat_def Let_def split: if_splits)
    from Cons.IH [OF rec Cons.prems(2)] obtain prefix' evs where
      "prefix' \<in> set rest" "p = filepath_Join [diskIDPath, prefix' @ serial]"
      "trace st' = trace ?st1 @ evs" "EvStat p None \<in> set evs"
      by blast
    then have "prefix' \<in> set (prefix # rest) \<and> p = filepath_Join [diskIDPath, prefix' @ serial]
               \<and> trace st' = trace st @ (EvStat ?source ?r # evs)
               \<and> EvStat p None \<in> set (EvStat ?source ?r # evs)"
      using t1 by simp
    then show ?thesis by blast
  qed
qed

lemma stat_candidates_error:
  assumes "stat_candidates env serial ps st = ((p, Some err), st')"
  shows "p = [] \<and> (\<exists>name e. err = PathError ''stat'' name e \<and> e \<noteq> ENOENT)"
  using assms
  by (induction ps arbitrary: st)
     (auto simp: os_Stat_def Let_def split: option.splits if_splits)

lemma stat_candidates_none_exists:
  assumes "\<forall>k. \<forall>prefix \<in> set ps. stat_oracle env k (filepath_Join [diskIDPath, prefix @ serial]) = Some ENOENT"
  shows "fst (stat_candidates env serial ps st) = ('''', None)"
  using assms
  by (induction ps arbitrary: st) (simp_all add: os_Stat_def Let_def)

lemma stat_candidates_first_existing:
  assumes "\<forall>i < length pre. stat_oracle env (stat_calls st + i)
              (filepath_Join [diskIDPath, pre ! i @ serial]) = Some ENOENT"
    and "stat_oracle env (stat_calls st + length pre)
              (filepath_Join [diskIDPath, prefix @ serial]) = None"
  shows "fst (stat_candidates env serial (pre @ prefix # post) st)
           = (filepath_Join [diskIDPath, prefix @ serial], None)"
  using assms
proof (induction pre arbitrary: st)
  case Nil
  then show ?case by (simp add: os_Stat_def Let_def)
next
  case (Cons q pre)
  let ?source = "filepath_Join [diskIDPath, q @ serial]"
  let ?st1 = "record_event (EvStat ?source (Some ENOENT)) (st\<lparr>stat_calls := Suc (stat_calls st)\<rparr>)"
  have q: "stat_oracle env (stat_calls st) ?source = Some ENOENT"
    using Cons.prems(1) by force
  have "\<forall>i < length pre. stat_oracle env (stat_calls ?st1 + i)
              (filepath_Join [diskIDPath, pre ! i @ serial]) = Some ENOENT"
  proof (intro allI impI)
    fix i assume "i < length pre"
    then have "Suc i < length (q # pre)" by simp
    from Cons.prems(1) [rule_format, OF this]
    show "stat_oracle env (stat_calls ?st1 + i) (filepath_Join [diskIDPath, pre ! i @ serial]) = Some ENOENT"
      by (simp add: record_event_def)
  qed
  moreover have "stat_oracle env (stat_calls ?st1 + length pre)
              (filepath_Join [diskIDPath, prefix @ serial]) = None"
    using Cons.prems(2) by (simp add: record_event_def)
  ultimately have "fst (stat_candidates env serial (pre @ prefix # post) ?st1)
           = (filepath_Join [diskIDPath, prefix @ serial], None)"
    by (rule Cons.IH)
  then show ?case using q by (simp add: os_Stat_def Let_def)
qed

section \<open>Rescan trigger: effects\<close>

lemma record_event_simps [simp]:
  "trace (record_event e st) = trace st @ [e]"
  "stat_calls (record_event e st) = stat_calls st"
  "ctx_polls (record_event e st) = ctx_polls st"
  "readdir_calls (record_event e st) = readdir_calls st"
  "writefile_calls (record_event e st) = writefile_calls st"
  "exec_calls (record_event e st) = exec_calls st"
  "devicePath (record_event e st) = devicePath st"
  by (simp_all add: record_event_def)

lemma scan_hosts_frame:
  "stat_calls (scan_hosts env scsiPath dirs st) = stat_calls st
   \<and> ctx_polls (scan_hosts env scsiPath dirs st) = ctx_polls st
   \<and> devicePath (scan_hosts env scsiPath dirs st) = devicePath st"
  by (induction dirs arbitrary: st)
     (simp_all add: os_WriteFile_def Let_def split: option.splits)

lemma exec_logged_frame:
  "stat_calls (case exec_CombinedOutput env cmd args s of
                 (True, s4) \<Rightarrow> record_event (EvLogError msg) s4 | (False, s4) \<Rightarrow> s4) = stat_calls s
   \<and> ctx_polls (case exec_CombinedOutput env cmd args s of
                 (True, s4) \<Rightarrow> record_event (EvLogError msg) s4 | (False, s4) \<Rightarrow> s4) = ctx_polls s
   \<and> devicePath (case exec_CombinedOutput env cmd args s of
                 (True, s4) \<Rightarrow> record_event (EvLogError msg) s4 | (False, s4) \<Rightarrow> s4) = devicePath s"
  by (simp add: exec_CombinedOutput_def split: bool.splits)

lemma exec_logged_trace:
  "trace (case exec_CombinedOutput env cmd args s of
            (True, s4) \<Rightarrow> record_event (EvLogError msg) s4 | (False, s4) \<Rightarrow> s4)
     = trace s @ EvExec cmd args
         # (if exec_oracle env (exec_calls s) cmd args then [EvLogError msg] else [])"
  by (simp add: exec_CombinedOutput_def split: bool.splits)

lemma readdir_scanned_frame:
  "stat_calls (case os_ReadDir env scsiPath s of
                 (Inr dirs, s2) \<Rightarrow> scan_hosts env scsiPath dirs s2
               | (Inl err, s2) \<Rightarrow> record_event (EvLogError msg) s2) = stat_calls s
   \<and> ctx_polls (case os_ReadDir env scsiPath s of
                 (Inr dirs, s2) \<Rightarrow> scan_hosts env scsiPath dirs s2
               | (Inl err, s2) \<Rightarrow> record_event (EvLogError msg) s2) = ctx_polls s
   \<and> devicePath (case os_ReadDir env scsiPath s of
                 (Inr dirs, s2) \<Rightarrow> scan_hosts env scsiPath dirs s2
               | (Inl err, s2) \<Rightarrow> record_event (EvLogError msg) s2) = devicePath s"
  by (simp add: os_ReadDir_def scan_hosts_frame split: sum.splits)

lemma probeVolume_frame:
  "stat_calls (probeVolume env st) = stat_calls st
   \<and> ctx_polls (probeVolume env st) = ctx_polls st
   \<and> devicePath (probeVolume env st) = devicePath st"
  unfolding probeVolume_def Let_def
  by (simp only: exec_logged_frame readdir_scanned_frame record_event_simps)

lemma scan_hosts_trace:
  "\<exists>evs. trace (scan_hosts env scsiPath dirs st) = trace st @ evs
         \<and> (\<forall>e \<in> set evs. is_probe_event e \<and> (\<forall>cmd args. e \<noteq> EvExec cmd args))"
proof (induction dirs arbitrary: st)
  case Nil
  show ?case by simp
next
  case (Cons f dirs)
  let ?name = "scsiPath @ f @ ''/scan''"
  let ?st1 = "record_event (EvLogInfo ''Triggering SCSI host rescan'') st"
  let ?r = "writefile_oracle env (writefile_calls ?st1) ?name"
  let ?st2 = "record_event (EvWriteFile ?name ''- - -'' ?r)
                (?st1\<lparr>writefile_calls := Suc (writefile_calls ?st1)\<rparr>)"
  let ?st3 = "case ?r of Some err \<Rightarrow> record_event (EvLogError ''Failed to rescan scsi host '') ?st2
              | None \<Rightarrow> ?st2"
  have unfold: "scan_hosts env scsiPath (f # dirs) st = scan_hosts env scsiPath dirs ?st3"
    by (simp add: os_WriteFile_def Let_def split: option.splits)
  have "\<exists>evs0. trace ?st3 = trace st @ evs0
          \<and> (\<forall>e \<in> set evs0. is_probe_event e \<and> (\<forall>cmd args. e \<noteq> EvExec cmd args))"
  proof (cases ?r)
    case None
    then have "trace ?st3 = trace st @ [EvLogInfo ''Triggering SCSI host rescan'',
                 EvWriteFile ?name ''- - -'' ?r]"
      by simp
    then show ?thesis by fastforce
  next
    case (Some err)
    then have "trace ?st3 = trace st @ [EvLogInfo ''Triggering SCSI host rescan'',
                 EvWriteFile ?name ''- - -'' ?r, EvLogError ''Failed to rescan scsi host '']"
      by simp
    then show ?thesis by fastforce
  qed
  then obtain evs0 where e0: "trace ?st3 = trace st @ evs0"
    "\<forall>e \<in> set evs0. is_probe_event e \<and> (\<forall>cmd args. e \<noteq> EvExec cmd args)"
    by blast
  from Cons.IH [of ?st3] obtain evs where e1:
    "trace (scan_hosts env scsiPath dirs ?st3) = trace ?st3 @ evs"
    "\<forall>e \<in> set evs. is_probe_event e \<and> (\<forall>cmd args. e \<noteq> EvExec cmd args)"
    by blast
  have "trace (scan_hosts env scsiPath (f # dirs) st) = trace st @ (evs0 @ evs)"
    unfolding unfold using e0(1) e1(1) by simp
  moreover have "\<forall>e \<in> set (evs0 @ evs). is_probe_event e \<and> (\<forall>cmd args. e \<noteq> EvExec cmd args)"
    using e0(2) e1(2) by auto
  ultimately show ?case by blast
qed

lemma readdir_scanned_trace:
  "\<exists>evs. trace (case os_ReadDir env scsiPath s of
                   (Inr dirs, s2) \<Rightarrow> scan_hosts env scsiPath dirs s2
                 | (Inl err, s2) \<Rightarrow> record_event (EvLogError msg) s2) = trace s @ evs
         \<and> (\<forall>e \<in> set evs. is_probe_event e \<and> (\<forall>cmd args. e \<noteq> EvExec cmd args))"
proof (cases "readdir_oracle env (readdir_calls s) scsiPath")
  case (Inl err)
  then have "trace (case os_ReadDir env scsiPath s of
                   (Inr dirs, s2) \<Rightarrow> scan_hosts env scsiPath dirs s2
                 | (Inl err, s2) \<Rightarrow> record_event (EvLogError msg) s2)
               = trace s @ [EvReadDir scsiPath, EvLogError msg]"
    by (simp add: os_ReadDir_def)
  then show ?thesis by fastforce
next
  case (Inr dirs)
  let ?s2 = "record_event (EvReadDir scsiPath) (s\<lparr>readdir_calls := Suc (readdir_calls s)\<rparr>)"
  from scan_hosts_trace [of env scsiPath dirs ?s2] obtain evs where
    "trace (scan_hosts env scsiPath dirs ?s2) = trace ?s2 @ evs"
    "\<forall>e \<in> set evs. is_probe_event e \<and> (\<forall>cmd args. e \<noteq> EvExec cmd args)"
    by blast
  then have "trace (case os_ReadDir env scsiPath s of
                   (Inr dirs, s2) \<Rightarrow> scan_hosts env scsiPath dirs s2
                 | (Inl err, s2) \<Rightarrow> record_event (EvLogError msg) s2)
               = trace s @ (EvReadDir scsiPath # evs)
             \<and> (\<forall>e \<in> set (EvReadDir scsiPath # evs).
                   is_probe_event e \<and> (\<forall>cmd args. e \<noteq> EvExec cmd args))"
    using Inr by (simp add: os_ReadDir_def)
  then show ?thesis by blast
qed

lemma probeVolume_trace:
  "\<exists>evs. trace (probeVolume env st) = trace st @ evs
         \<and> (\<forall>e \<in> set evs. is_probe_event e)
         \<and> count_list evs (EvExec ''udevadm'' [''trigger'']) = 1"
proof -
  let ?scsiPath = "''/sys/class/scsi_host/''"
  let ?st1 = "record_event (EvLogInfo ''Scanning SCSI host'') st"
  let ?st3 = "case os_ReadDir env ?scsiPath ?st1 of
                (Inr dirs, s2) \<Rightarrow> scan_hosts env ?scsiPath dirs s2
              | (Inl err, s2) \<Rightarrow> record_event (EvLogError ''Failed to read dir '') s2"
  from readdir_scanned_trace [where env = env and scsiPath = ?scsiPath and s = ?st1
      and msg = "''Failed to read dir ''"]
  obtain evs where e: "trace ?st3 = trace ?st1 @ evs"
    "\<forall>e \<in> set evs. is_probe_event e \<and> (\<forall>cmd args. e \<noteq> EvExec cmd args)"
    by blast
  have absent: "count_list evs (EvExec ''udevadm'' [''trigger'']) = 0"
    using e(2) by (intro count_notin) blast
  let ?tail = "if exec_oracle env (exec_calls ?st3) ''udevadm'' [''trigger'']
               then [EvLogError ''Error running udevadm trigger''] else []"
  have "trace (probeVolume env st) = trace ?st3 @ EvExec ''udevadm'' [''trigger''] # ?tail"
    unfolding probeVolume_def Let_def by (rule exec_logged_trace)
  then have "trace (probeVolume env st)
               = trace st @ (EvLogInfo ''Scanning SCSI host'' # evs
                   @ EvExec ''udevadm'' [''trigger''] # ?tail)"
    using e(1) by simp
  moreover have "\<forall>e \<in> set (EvLogInfo ''Scanning SCSI host'' # evs
                   @ EvExec ''udevadm'' [''trigger''] # ?tail). is_probe_event e"
    using e(2) by auto
  moreover have "count_list (EvLogInfo ''Scanning SCSI host'' # evs
                   @ EvExec ''udevadm'' [''trigger''] # ?tail) (EvExec ''udevadm'' [''trigger'']) = 1"
    using absent by simp
  ultimately show ?thesis by blast
qed

section \<open>The condition function and the backoff loop\<close>

lemma is_probe_event_not_stat: "is_probe_event e \<Longrightarrow> \<not> is_stat e"
  by (cases e) simp_all

lemma condition_func_frame:
  "ctx_polls (snd (condition_func env volumeID st)) = ctx_polls st"
  unfolding condition_func_def getDevicePathBySerialID_def
  using stat_candidates_frame [of env "diskUUIDToSerial volumeID" sourcePathPrefixes st]
  by (auto split: prod.splits option.splits simp: probeVolume_frame)

lemma condition_func_trace:
  "\<exists>evs. trace (snd (condition_func env volumeID st)) = trace st @ evs
         \<and> (\<forall>e \<in> set evs. is_stat e \<or> is_probe_event e)
         \<and> length (filter is_stat evs) \<le> 3
         \<and> count_list evs (EvExec ''udevadm'' [''trigger'']) \<le> 1"
proof -
  let ?r = "stat_candidates env (diskUUIDToSerial volumeID) sourcePathPrefixes st"
  from stat_candidates_trace [of env "diskUUIDToSerial volumeID" sourcePathPrefixes st]
  obtain evs1 where e1: "trace (snd ?r) = trace st @ evs1" "\<forall>e \<in> set evs1. is_stat e"
    "length evs1 \<le> 3"
    unfolding sourcePathPrefixes_def by auto
  have no_udev: "count_list evs1 (EvExec ''udevadm'' [''trigger'']) = 0"
    using e1(2) by (intro count_notin) auto
  show ?thesis
  proof (cases "snd (fst ?r) = None \<and> fst (fst ?r) = []")
    case False
    then have "trace (snd (condition_func env volumeID st)) = trace (snd ?r)"
      unfolding condition_func_def getDevicePathBySerialID_def
      by (auto split: prod.splits option.splits)
    then have "trace (snd (condition_func env volumeID st)) = trace st @ evs1
               \<and> (\<forall>e \<in> set evs1. is_stat e \<or> is_probe_event e)
               \<and> length (filter is_stat evs1) \<le> 3
               \<and> count_list evs1 (EvExec ''udevadm'' [''trigger'']) \<le> 1"
      using e1 no_udev by (simp add: le_trans [OF length_filter_le])
    then show ?thesis by blast
  next
    case True
    then have c: "snd (condition_func env volumeID st) = probeVolume env (snd ?r)"
      unfolding condition_func_def getDevicePathBySerialID_def
      by (auto split: prod.splits option.splits)
    from probeVolume_trace [of env "snd ?r"] obtain evs2 where e2:
      "trace (probeVolume env (snd ?r)) = trace (snd ?r) @ evs2"
      "\<forall>e \<in> set evs2. is_probe_event e"
      "count_list evs2 (EvExec ''udevadm'' [''trigger'']) = 1"
      by blast
    have "filter is_stat evs2 = []"
      using e2(2) by (auto simp: filter_empty_conv dest: is_probe_event_not_stat)
    then have "trace (snd (condition_func env volumeID st)) = trace st @ (evs1 @ evs2)
               \<and> (\<forall>e \<in> set (evs1 @ evs2). is_stat e \<or> is_probe_event e)
               \<and> length (filter is_stat (evs1 @ evs2)) \<le> 3
               \<and> count_list (evs1 @ evs2) (EvExec ''udevadm'' [''trigger'']) \<le> 1"
      using c e1 e2 no_udev by (auto simp: le_trans [OF length_filter_le])
    then show ?thesis by blast
  qed
qed

lemma condition_func_devicePath:
  "devicePath (snd (condition_func env volumeID st)) = devicePath st
   \<or> (\<exists>prefix \<in> set sourcePathPrefixes.
         devicePath (snd (condition_func env volumeID st))
           = filepath_Join [diskIDPath, prefix @ diskUUIDToSerial volumeID]
         \<and> (\<exists>evs. trace (snd (condition_func env volumeID st)) = trace st @ evs
               \<and> EvStat (devicePath (snd (condition_func env volumeID st))) None \<in> set evs))"
proof -
  let ?r = "stat_candidates env (diskUUIDToSerial volumeID) sourcePathPrefixes st"
  obtain p err st1 where r: "?r = ((p, err), st1)"
    by (metis prod.collapse)
  have frame: "devicePath st1 = devicePath st"
    using stat_candidates_frame [of env "diskUUIDToSerial volumeID" sourcePathPrefixes st] r
    by simp
  show ?thesis
  proof (cases "err = None \<and> p \<noteq> []")
    case True
    then have found: "?r = ((p, None), st1)" and "p \<noteq> []" using r by simp_all
    have c: "snd (condition_func env volumeID st) = st1\<lparr>devicePath := p\<rparr>"
      unfolding condition_func_def getDevicePathBySerialID_def using found \<open>p \<noteq> []\<close> by simp
    from stat_candidates_found [OF found \<open>p \<noteq> []\<close>] show ?thesis
      unfolding c by simp
  next
    case False
    then have "devicePath (snd (condition_func env volumeID st)) = devicePath st1"
      unfolding condition_func_def getDevicePathBySerialID_def using r
      by (auto split: option.splits simp: probeVolume_frame)
    then show ?thesis using frame by simp
  qed
qed

lemma backoff_invariant:
  assumes "I st"
    and poll: "\<And>s. I s \<Longrightarrow> I (snd (ctx_poll env s))"
    and cond: "\<And>s. I s \<Longrightarrow> I (snd (condition (record_event EvCondition s)))"
    and wait: "\<And>s. I s \<Longrightarrow> I (snd (backoff_wait env s))"
  shows "I (snd (ExponentialBackoffWithContext env n condition st))"
  using assms(1)
proof (induction n arbitrary: st)
  case 0
  then show ?case by simp
next
  case (Suc n)
  let ?s1 = "snd (ctx_poll env st)"
  let ?s2 = "snd (condition (record_event EvCondition ?s1))"
  let ?s3 = "snd (backoff_wait env ?s2)"
  have 1: "I ?s1" using Suc.prems by (rule poll)
  then have 2: "I ?s2" by (rule cond)
  then have 3: "I ?s3" by (rule wait)
  then have 4: "I (snd (ExponentialBackoffWithContext env n condition ?s3))" by (rule Suc.IH)
  show ?case using 1 2 3 4
    by (auto split: prod.splits option.splits)
qed

lemma backoff_Suc:
  "ExponentialBackoffWithContext env (Suc n) condition st =
     (let s1 = snd (ctx_poll env st);
          c = condition (record_event EvCondition s1);
          s2 = snd c;
          s3 = snd (backoff_wait env s2)
      in case fst (ctx_poll env st) of
           Some e \<Rightarrow> (Some (ContextError e), s1)
         | None \<Rightarrow>
             if snd (fst c) \<noteq> None \<or> fst (fst c) then (snd (fst c), s2)
             else if n = 0 then (Some ErrWaitTimeout, s2)
             else (case fst (backoff_wait env s2) of
                     Some e \<Rightarrow> (Some (ContextError e), s3)
                   | None \<Rightarrow> ExponentialBackoffWithContext env n condition s3))"
proof -
  obtain r1 s1 where p: "ctx_poll env st = (r1, s1)"
    by (cases "ctx_poll env st")
  obtain ok err s2 where c: "condition (record_event EvCondition s1) = ((ok, err), s2)"
    by (metis prod.collapse)
  obtain r3 s3 where w: "backoff_wait env s2 = (r3, s3)"
    by (cases "backoff_wait env s2")
  show ?thesis
    by (cases r1; cases r3) (simp_all add: Let_def p c w)
qed

declare ExponentialBackoffWithContext.simps(2) [simp del]

lemma ctx_poll_simps [simp]:
  "trace (snd (ctx_poll env st)) = trace st"
  "devicePath (snd (ctx_poll env st)) = devicePath st"
  "stat_calls (snd (ctx_poll env st)) = stat_calls st"
  "fst (ctx_poll env st) = ctx_oracle env (ctx_polls st)"
  "ctx_polls (snd (ctx_poll env st)) = Suc (ctx_polls st)"
  by (simp_all add: ctx_poll_def)

lemma backoff_wait_simps [simp]:
  "trace (snd (backoff_wait env st)) = trace st @ [EvWait]"
  "devicePath (snd (backoff_wait env st)) = devicePath st"
  "stat_calls (snd (backoff_wait env st)) = stat_calls st"
  "fst (backoff_wait env st) = ctx_oracle env (ctx_polls st)"
  "ctx_polls (snd (backoff_wait env st)) = Suc (ctx_polls st)"
  by (simp_all add: backoff_wait_def)

lemma events_since_append: "trace st' = trace st @ evs \<Longrightarrow> events_since st st' = evs"
  by (simp add: events_since_def)

lemma GetDevicePath_unfold:
  "GetDevicePath env volumeID st =
     (let r = ExponentialBackoffWithContext env backoff_Steps (condition_func env volumeID)
                (st\<lparr>devicePath := ''''\<rparr>)
      in if wait_Interrupted (fst r) then (('''', Some (NotFoundInTime volumeID)), snd r)
         else if devicePath (snd r) = '''' then (('''', Some (DevicePathEmpty volumeID)), snd r)
         else ((devicePath (snd r), None), snd r))"
  by (simp add: GetDevicePath_def Let_def split: prod.splits)

lemma GetDevicePath_state:
  "snd (GetDevicePath env volumeID st)
     = snd (ExponentialBackoffWithContext env backoff_Steps (condition_func env volumeID)
              (st\<lparr>devicePath := ''''\<rparr>))"
  by (simp add: GetDevicePath_unfold Let_def)

lemma backoff_verified:
  fixes st0 :: state and volumeID :: string
  defines "verified \<equiv> \<lambda>s. \<exists>evs. trace s = trace st0 @ evs
     \<and> (devicePath s = []
        \<or> (\<exists>prefix \<in> set sourcePathPrefixes.
              devicePath s = filepath_Join [diskIDPath, prefix @ diskUUIDToSerial volumeID]
              \<and> EvStat (devicePath s) None \<in> set evs))"
  assumes "devicePath st0 = []"
  shows "verified (snd (ExponentialBackoffWithContext env n (condition_func env volumeID) st0))"
proof (rule backoff_invariant)
  show "verified st0" unfolding verified_def using assms(2) by simp
next
  fix s assume "verified s"
  then show "verified (snd (ctx_poll env s))" unfolding verified_def by simp
next
  fix s assume "verified s"
  then show "verified (snd (backoff_wait env s))" unfolding verified_def by auto
next
  fix s assume "verified s"
  then obtain evs where s: "trace s = trace st0 @ evs"
    "devicePath s = []
        \<or> (\<exists>prefix \<in> set sourcePathPrefixes.
              devicePath s = filepath_Join [diskIDPath, prefix @ diskUUIDToSerial volumeID]
              \<and> EvStat (devicePath s) None \<in> set evs)"
    unfolding verified_def by blast
  let ?s1 = "record_event EvCondition s"
  let ?s2 = "snd (condition_func env volumeID ?s1)"
  from condition_func_trace [of env volumeID ?s1] obtain evs2 where
    t2: "trace ?s2 = trace ?s1 @ evs2" by blast
  then have t: "trace ?s2 = trace st0 @ (evs @ EvCondition # evs2)"
    using s(1) by simp
  from condition_func_devicePath [of env volumeID ?s1]
  show "verified ?s2"
  proof
    assume "devicePath ?s2 = devicePath ?s1"
    then have "devicePath ?s2 = devicePath s" by simp
    then show ?thesis
      unfolding verified_def using s(2) t by auto
  next
    assume "\<exists>prefix \<in> set sourcePathPrefixes.
         devicePath ?s2 = filepath_Join [diskIDPath, prefix @ diskUUIDToSerial volumeID]
         \<and> (\<exists>evs. trace ?s2 = trace ?s1 @ evs \<and> EvStat (devicePath ?s2) None \<in> set evs)"
    then obtain prefix evs3 where p: "prefix \<in> set sourcePathPrefixes"
      "devicePath ?s2 = filepath_Join [diskIDPath, prefix @ diskUUIDToSerial volumeID]"
      "trace ?s2 = trace ?s1 @ evs3" "EvStat (devicePath ?s2) None \<in> set evs3"
      by blast
    have "trace ?s2 = trace st0 @ (evs @ EvCondition # evs3)"
      using p(3) s(1) by simp
    moreover have "EvStat (devicePath ?s2) None \<in> set (evs @ EvCondition # evs3)"
      using p(4) by simp
    ultimately show ?thesis
      unfolding verified_def using p(1,2) by blast
  qed
qed

text \<open>
  Claim C3. Whenever \<open>GetDevicePath\<close> returns without an error, the path it returns
  is \<open>filepath.Join\<close> of the root \<open>/dev/disk/by-id\<close> with one of the three prefixes
  followed by the serial of the volume identifier (when the serial has no slash this is
  literally root, slash, prefix, serial), and during this very call \<open>os.Stat\<close> was
  called on exactly that path and succeeded. A path whose check failed or never took
  place is not returned.
\<close>

theorem GetDevicePath_returns_verified_path:
  assumes "fst (GetDevicePath env volumeID st) = (p, None)"
  shows "\<exists>prefix \<in> set sourcePathPrefixes.
           p = filepath_Join [diskIDPath, prefix @ diskUUIDToSerial volumeID]
           \<and> (CHR ''/'' \<notin> set (diskUUIDToSerial volumeID)
                \<longrightarrow> p = diskIDPath @ ''/'' @ prefix @ diskUUIDToSerial volumeID)
           \<and> EvStat p None \<in> set (events_since st (snd (GetDevicePath env volumeID st)))"
proof -
  let ?st0 = "st\<lparr>devicePath := ''''\<rparr>"
  let ?st1 = "snd (ExponentialBackoffWithContext env backoff_Steps
                     (condition_func env volumeID) ?st0)"
  have p: "p = devicePath ?st1" and ne: "devicePath ?st1 \<noteq> []"
    using assms unfolding GetDevicePath_unfold Let_def
    by (auto split: if_splits)
  have "devicePath ?st0 = []" by simp
  from backoff_verified [OF this, of env backoff_Steps volumeID] ne
  obtain evs prefix where v: "trace ?st1 = trace ?st0 @ evs"
    "prefix \<in> set sourcePathPrefixes"
    "devicePath ?st1 = filepath_Join [diskIDPath, prefix @ diskUUIDToSerial volumeID]"
    "EvStat (devicePath ?st1) None \<in> set evs"
    by auto
  have "events_since st ?st1 = evs"
    using v(1) by (intro events_since_append) simp
  moreover have "CHR ''/'' \<notin> set (diskUUIDToSerial volumeID)
                \<longrightarrow> p = diskIDPath @ ''/'' @ prefix @ diskUUIDToSerial volumeID"
    using v(2,3) p by (simp add: candidate_literal)
  ultimately show ?thesis
    unfolding GetDevicePath_state using v(2,3,4) p by auto
qed

lemma backoff_counts:
  "\<exists>evs. trace (snd (ExponentialBackoffWithContext env n (condition_func env volumeID) st))
           = trace st @ evs
         \<and> count_list evs EvCondition \<le> n
         \<and> count_list evs EvWait \<le> n - 1
         \<and> length (filter is_stat evs) \<le> 3 * n
         \<and> count_list evs (EvExec ''udevadm'' [''trigger'']) \<le> n"
proof (induction n arbitrary: st)
  case 0
  show ?case by simp
next
  case (Suc n)
  let ?udev = "EvExec ''udevadm'' [''trigger'']"
  let ?s1 = "snd (ctx_poll env st)"
  let ?c = "condition_func env volumeID (record_event EvCondition ?s1)"
  let ?s2 = "snd ?c"
  let ?s3 = "snd (backoff_wait env ?s2)"
  let ?loop = "ExponentialBackoffWithContext env (Suc n) (condition_func env volumeID) st"
  from condition_func_trace [of env volumeID "record_event EvCondition ?s1"]
  obtain evsC where c: "trace ?s2 = trace st @ (EvCondition # evsC)"
    "\<forall>e \<in> set evsC. is_stat e \<or> is_probe_event e"
    "length (filter is_stat evsC) \<le> 3"
    "count_list evsC ?udev \<le> 1"
    by auto
  have cC: "count_list evsC EvCondition = 0" and cW: "count_list evsC EvWait = 0"
    using c(2) by (auto intro!: count_notin)
  from Suc.IH [of ?s3] obtain evsR where r:
    "trace (snd (ExponentialBackoffWithContext env n (condition_func env volumeID) ?s3))
       = trace ?s3 @ evsR"
    "count_list evsR EvCondition \<le> n" "count_list evsR EvWait \<le> n - 1"
    "length (filter is_stat evsR) \<le> 3 * n" "count_list evsR ?udev \<le> n"
    by blast
  have "snd ?loop = ?s1 \<or> snd ?loop = ?s2 \<or> (n \<noteq> 0 \<and> snd ?loop = ?s3)
        \<or> (n \<noteq> 0 \<and> snd ?loop
              = snd (ExponentialBackoffWithContext env n (condition_func env volumeID) ?s3))"
    unfolding backoff_Suc Let_def
    by (cases "fst (ctx_poll env st)"; cases "fst (backoff_wait env ?s2)") simp_all
  then consider (cancelled) "snd ?loop = ?s1"
    | (stopped) "snd ?loop = ?s2"
    | (interrupted) "n \<noteq> 0" "snd ?loop = ?s3"
    | (again) "n \<noteq> 0"
        "snd ?loop = snd (ExponentialBackoffWithContext env n (condition_func env volumeID) ?s3)"
    by blast
  then show ?case
  proof cases
    case cancelled
    then have "trace (snd ?loop) = trace st @ []" by simp
    then show ?thesis by force
  next
    case stopped
    let ?evs = "EvCondition # evsC"
    have "trace (snd ?loop) = trace st @ ?evs" using stopped c(1) by simp
    moreover have "count_list ?evs EvCondition \<le> Suc n" "count_list ?evs EvWait \<le> Suc n - 1"
      "length (filter is_stat ?evs) \<le> 3 * Suc n" "count_list ?evs ?udev \<le> Suc n"
      using cC cW c(3,4) by simp_all
    ultimately show ?thesis by blast
  next
    case interrupted
    let ?evs = "EvCondition # evsC @ [EvWait]"
    have "trace (snd ?loop) = trace st @ ?evs" using interrupted c(1) by simp
    moreover have "count_list ?evs EvCondition \<le> Suc n" "count_list ?evs EvWait \<le> Suc n - 1"
      "length (filter is_stat ?evs) \<le> 3 * Suc n" "count_list ?evs ?udev \<le> Suc n"
      using cC cW c(3,4) interrupted(1) by simp_all
    ultimately show ?thesis by blast
  next
    case again
    let ?evs = "EvCondition # evsC @ EvWait # evsR"
    have "trace (snd ?loop) = trace st @ ?evs" using again r(1) c(1) by simp
    moreover have "count_list ?evs EvCondition \<le> Suc n" "count_list ?evs EvWait \<le> Suc n - 1"
      "length (filter is_stat ?evs) \<le> 3 * Suc n" "count_list ?evs ?udev \<le> Suc n"
      using cC cW c(3,4) r(2,3,4,5) again(1) by simp_all
    ultimately show ?thesis by blast
  qed
qed

text \<open>
  Claim C6. The resolution loop is bounded. Every function of the model is total, and
  for every volume identifier, every host and every starting state one call of
  \<open>GetDevicePath\<close> invokes the condition function at most 15 times; so it calls
  \<open>os.Stat\<close> at most 45 times, triggers at most 15 rescans and waits at most 14 times.
\<close>

theorem GetDevicePath_bounded:
  "count_list (events_since st (snd (GetDevicePath env volumeID st))) EvCondition \<le> 15
   \<and> length (filter is_stat (events_since st (snd (GetDevicePath env volumeID st)))) \<le> 45
   \<and> count_list (events_since st (snd (GetDevicePath env volumeID st)))
        (EvExec ''udevadm'' [''trigger'']) \<le> 15
   \<and> count_list (events_since st (snd (GetDevicePath env volumeID st))) EvWait \<le> 14"
proof -
  let ?st0 = "st\<lparr>devicePath := ''''\<rparr>"
  from backoff_counts [of env backoff_Steps volumeID ?st0] obtain evs where e:
    "trace (snd (ExponentialBackoffWithContext env backoff_Steps (condition_func env volumeID) ?st0))
       = trace ?st0 @ evs"
    "count_list evs EvCondition \<le> backoff_Steps"
    "count_list evs EvWait \<le> backoff_Steps - 1"
    "length (filter is_stat evs) \<le> 3 * backoff_Steps"
    "count_list evs (EvExec ''udevadm'' [''trigger'']) \<le> backoff_Steps"
    by blast
  have "events_since st (snd (GetDevicePath env volumeID st)) = evs"
    unfolding GetDevicePath_state using e(1) by (intro events_since_append) simp
  then show ?thesis using e(2,3,4,5) by (simp add: backoff_Steps_def)
qed

lemma backoff_error_when_absent:
  assumes "\<forall>k. \<forall>prefix \<in> set sourcePathPrefixes.
             stat_oracle env k (filepath_Join [diskIDPath, prefix @ diskUUIDToSerial volumeID])
               = Some ENOENT"
  shows "fst (ExponentialBackoffWithContext env n (condition_func env volumeID) st)
           \<in> {Some ErrWaitTimeout, Some (ContextError Canceled),
               Some (ContextError DeadlineExceeded)}
         \<and> devicePath (snd (ExponentialBackoffWithContext env n (condition_func env volumeID) st))
             = devicePath st"
proof (induction n arbitrary: st)
  case 0
  show ?case by simp
next
  case (Suc n)
  have c: "fst (condition_func env volumeID s) = (False, None)" for s
    using stat_candidates_none_exists [OF assms, of s]
    unfolding condition_func_def getDevicePathBySerialID_def
    by (auto split: prod.splits option.splits)
  have d: "devicePath (snd (condition_func env volumeID s)) = devicePath s" for s
    using stat_candidates_none_exists [OF assms, of s]
      stat_candidates_frame [of env "diskUUIDToSerial volumeID" sourcePathPrefixes s]
    unfolding condition_func_def getDevicePathBySerialID_def
    by (auto split: prod.splits option.splits simp: probeVolume_frame)
  have e: "e = Canceled \<or> e = DeadlineExceeded" for e
    by (cases e) simp_all
  let ?s2 = "snd (condition_func env volumeID (record_event EvCondition (snd (ctx_poll env st))))"
  let ?s3 = "snd (backoff_wait env ?s2)"
  note IH = Suc.IH [of ?s3]
  show ?case
  proof (cases "fst (ctx_poll env st)")
    case (Some x)
    then show ?thesis
      unfolding backoff_Suc Let_def using e [of x] by auto
  next
    case None
    note poll = this
    show ?thesis
    proof (cases "n = 0")
      case True
      then show ?thesis
        unfolding backoff_Suc Let_def using poll by (simp add: c d)
    next
      case False
      show ?thesis
      proof (cases "fst (backoff_wait env ?s2)")
        case (Some x)
        then show ?thesis
          unfolding backoff_Suc Let_def using poll False e [of x] by (auto simp: c d)
      next
        case None
        then show ?thesis
          unfolding backoff_Suc Let_def using poll False IH by (simp add: c d)
      qed
    qed
  qed
qed

text \<open>
  Claim C4. When no candidate path ever exists, the backoff loop can end in two ways
  only, by exhausting its steps (\<open>ErrWaitTimeout\<close>) or by the caller's context being
  done (\<open>Canceled\<close>, \<open>DeadlineExceeded\<close>), and in both \<open>GetDevicePath\<close> returns the
  empty path with the one "not found within the allotted time" error: the result does
  not tell the two apart.
\<close>

theorem GetDevicePath_not_found:
  assumes "\<forall>k. \<forall>prefix \<in> set sourcePathPrefixes.
             stat_oracle env k (filepath_Join [diskIDPath, prefix @ diskUUIDToSerial volumeID])
               = Some ENOENT"
  shows "fst (ExponentialBackoffWithContext env backoff_Steps (condition_func env volumeID)
                (st\<lparr>devicePath := ''''\<rparr>))
           \<in> {Some ErrWaitTimeout, Some (ContextError Canceled),
               Some (ContextError DeadlineExceeded)}
         \<and> fst (GetDevicePath env volumeID st) = ('''', Some (NotFoundInTime volumeID))"
proof -
  let ?r = "ExponentialBackoffWithContext env backoff_Steps (condition_func env volumeID)
              (st\<lparr>devicePath := ''''\<rparr>)"
  from backoff_error_when_absent [OF assms, of backoff_Steps "st\<lparr>devicePath := ''''\<rparr>"]
  have err: "fst ?r \<in> {Some ErrWaitTimeout, Some (ContextError Canceled),
               Some (ContextError DeadlineExceeded)}"
    by simp
  then have "wait_Interrupted (fst ?r)" by auto
  then show ?thesis
    unfolding GetDevicePath_unfold Let_def using err by simp
qed

text \<open>
  The bound on the attempts is reached: where nothing exists and the context is never
  done, a loop of \<open>n\<close> steps makes \<open>n\<close> attempts and waits \<open>n - 1\<close> times.
\<close>

lemma backoff_exhausted:
  assumes "\<forall>k. \<forall>prefix \<in> set sourcePathPrefixes.
             stat_oracle env k (filepath_Join [diskIDPath, prefix @ diskUUIDToSerial volumeID])
               = Some ENOENT"
    and "\<forall>k. ctx_oracle env k = None"
  shows "fst (ExponentialBackoffWithContext env n (condition_func env volumeID) st)
           = Some ErrWaitTimeout
         \<and> (\<exists>evs. trace (snd (ExponentialBackoffWithContext env n (condition_func env volumeID) st))
                     = trace st @ evs
                \<and> count_list evs EvCondition = n \<and> count_list evs EvWait = n - 1)"
proof (induction n arbitrary: st)
  case 0
  show ?case by simp
next
  case (Suc n)
  let ?s1 = "snd (ctx_poll env st)"
  let ?s2 = "snd (condition_func env volumeID (record_event EvCondition ?s1))"
  let ?s3 = "snd (backoff_wait env ?s2)"
  let ?loop = "ExponentialBackoffWithContext env (Suc n) (condition_func env volumeID) st"
  have c: "fst (condition_func env volumeID s) = (False, None)" for s
    using stat_candidates_none_exists [OF assms(1), of s]
    unfolding condition_func_def getDevicePathBySerialID_def
    by (auto split: prod.splits option.splits)
  from condition_func_trace [of env volumeID "record_event EvCondition ?s1"]
  obtain evsC where t: "trace ?s2 = trace st @ (EvCondition # evsC)"
    "\<forall>e \<in> set evsC. is_stat e \<or> is_probe_event e"
    by auto
  have cC: "count_list evsC EvCondition = 0" and cW: "count_list evsC EvWait = 0"
    using t(2) by (auto intro!: count_notin)
  show ?case
  proof (cases "n = 0")
    case True
    then have "?loop = (Some ErrWaitTimeout, ?s2)"
      unfolding backoff_Suc Let_def using assms(2) by (simp add: c)
    moreover have "count_list (EvCondition # evsC) EvCondition = Suc n"
      "count_list (EvCondition # evsC) EvWait = Suc n - 1"
      using cC cW True by simp_all
    ultimately show ?thesis using t(1) by (metis fst_conv snd_conv)
  next
    case False
    then have l: "?loop = ExponentialBackoffWithContext env n (condition_func env volumeID) ?s3"
      unfolding backoff_Suc Let_def using assms(2) by (simp add: c)
    from Suc.IH [of ?s3] obtain evsR where r:
      "fst (ExponentialBackoffWithContext env n (condition_func env volumeID) ?s3)
         = Some ErrWaitTimeout"
      "trace (snd (ExponentialBackoffWithContext env n (condition_func env volumeID) ?s3))
         = trace ?s3 @ evsR"
      "count_list evsR EvCondition = n" "count_list evsR EvWait = n - 1"
      by blast
    let ?evs = "EvCondition # evsC @ EvWait # evsR"
    have "trace (snd ?loop) = trace st @ ?evs"
      unfolding l using r(2) t(1) by simp
    moreover have "count_list ?evs EvCondition = Suc n" "count_list ?evs EvWait = Suc n - 1"
      using cC cW r(3,4) False by simp_all
    ultimately show ?thesis using r(1) l by metis
  qed
qed

section \<open>Priority among the candidates\<close>

lemma stat_candidates_first_existing_index:
  assumes "i < length ps"
    and "\<forall>h < i. stat_oracle env (stat_calls st + h)
              (filepath_Join [diskIDPath, ps ! h @ serial]) = Some ENOENT"
    and "stat_oracle env (stat_calls st + i)
              (filepath_Join [diskIDPath, ps ! i @ serial]) = None"
  shows "fst (stat_candidates env serial ps st)
           = (filepath_Join [diskIDPath, ps ! i @ serial], None)"
proof -
  have split: "ps = take i ps @ ps ! i # drop (Suc i) ps"
    using assms(1) by (rule id_take_nth_drop)
  have len: "length (take i ps) = i" using assms(1) by simp
  have "fst (stat_candidates env serial (take i ps @ ps ! i # drop (Suc i) ps) st)
           = (filepath_Join [diskIDPath, ps ! i @ serial], None)"
  proof (rule stat_candidates_first_existing)
    show "\<forall>h < length (take i ps). stat_oracle env (stat_calls st + h)
              (filepath_Join [diskIDPath, take i ps ! h @ serial]) = Some ENOENT"
      using assms(2) len by simp
    show "stat_oracle env (stat_calls st + length (take i ps))
              (filepath_Join [diskIDPath, ps ! i @ serial]) = None"
      using assms(3) len by simp
  qed
  then show ?thesis using split by simp
qed

text \<open>
  Claim C5, amended. Let all checks of one look-up see the same file system. If the
  candidates of two prefixes exist, and every candidate before the earlier of the two in
  the order \<open>virtio-\<close>, \<open>scsi-\<close>, \<open>scsi-0QEMU_QEMU_HARDDISK_\<close> is reported as not
  existing, then the look-up returns the candidate of the earlier prefix: the first
  existing candidate wins.
\<close>

theorem getDevicePathBySerialID_priority:
  assumes "\<forall>k < length sourcePathPrefixes. stat_oracle env (stat_calls st + k) = fs"
    and "i < j" and "j < length sourcePathPrefixes"
    and "fs (filepath_Join [diskIDPath, sourcePathPrefixes ! i @ diskUUIDToSerial volumeID]) = None"
    and "fs (filepath_Join [diskIDPath, sourcePathPrefixes ! j @ diskUUIDToSerial volumeID]) = None"
    and "\<forall>h < i. fs (filepath_Join [diskIDPath, sourcePathPrefixes ! h @ diskUUIDToSerial volumeID])
           = Some ENOENT"
  shows "fst (getDevicePathBySerialID env volumeID st)
           = (filepath_Join [diskIDPath, sourcePathPrefixes ! i @ diskUUIDToSerial volumeID], None)"
  unfolding getDevicePathBySerialID_def
proof (rule stat_candidates_first_existing_index)
  show i: "i < length sourcePathPrefixes" using assms(2,3) by simp
  show "\<forall>h < i. stat_oracle env (stat_calls st + h)
          (filepath_Join [diskIDPath, sourcePathPrefixes ! h @ diskUUIDToSerial volumeID])
            = Some ENOENT"
    using assms(1,6) i by simp
  show "stat_oracle env (stat_calls st + i)
          (filepath_Join [diskIDPath, sourcePathPrefixes ! i @ diskUUIDToSerial volumeID]) = None"
    using assms(1,4) i by simp
qed

lemma diskUUIDToSerial_abc: "diskUUIDToSerial ''abc'' = ''abc''"
  unfolding diskUUIDToSerial_take by simp

lemma candidates_abc:
  "filepath_Join [diskIDPath, ''virtio-abc''] = ''/dev/disk/by-id/virtio-abc''"
  "filepath_Join [diskIDPath, ''scsi-abc''] = ''/dev/disk/by-id/scsi-abc''"
  "filepath_Join [diskIDPath, ''scsi-0QEMU_QEMU_HARDDISK_abc'']
     = ''/dev/disk/by-id/scsi-0QEMU_QEMU_HARDDISK_abc''"
  using candidate_literal [of "''abc''" "''virtio-''"] candidate_literal [of "''abc''" "''scsi-''"]
    candidate_literal [of "''abc''" "''scsi-0QEMU_QEMU_HARDDISK_''"]
  by (simp_all add: sourcePathPrefixes_def diskIDPath_def)

text \<open>
  Where every candidate exists, the \<open>virtio-\<close> candidate and the \<open>scsi-\<close> candidate
  exist together and the look-up returns the \<open>virtio-\<close> one.
\<close>

theorem getDevicePathBySerialID_priority_witness:
  "fst (getDevicePathBySerialID (static_host fs_present) ''abc'' init_state)
     = (''/dev/disk/by-id/virtio-abc'', None)"
  using getDevicePathBySerialID_priority [of "static_host fs_present" init_state fs_present 0 1 "''abc''"]
  by (simp add: sourcePathPrefixes_def static_host_def fs_present_def diskUUIDToSerial_abc
      candidates_abc)

text \<open>
  Claim C5, as the specification words it, promises the earlier of two existing
  candidates whatever happens to the candidates before them. On a host where
  \<open>os.Stat\<close> of the \<open>virtio-\<close> candidate is refused (\<open>EACCES\<close>) while the two
  \<open>scsi\<close> candidates exist, the look-up returns that error and no path.
\<close>

theorem getDevicePathBySerialID_priority_counterexample:
  "fs_first_denied ''/dev/disk/by-id/scsi-abc'' = None
   \<and> fs_first_denied ''/dev/disk/by-id/scsi-0QEMU_QEMU_HARDDISK_abc'' = None
   \<and> fst (getDevicePathBySerialID (static_host fs_first_denied) ''abc'' init_state)
       = ('''', Some (PathError ''stat'' ''/dev/disk/by-id/virtio-abc'' EACCES))"
  by (simp add: getDevicePathBySerialID_def sourcePathPrefixes_def diskUUIDToSerial_abc
      candidates_abc os_Stat_def Let_def static_host_def fs_first_denied_def init_state_def)

lemma backoff_found_on_first_check:
  assumes "ctx_oracle env (ctx_polls st) = None"
    and "j < length sourcePathPrefixes"
    and "\<forall>h < j. stat_oracle env (stat_calls st + h)
           (filepath_Join [diskIDPath, sourcePathPrefixes ! h @ diskUUIDToSerial volumeID])
             = Some ENOENT"
    and "stat_oracle env (stat_calls st + j)
           (filepath_Join [diskIDPath, sourcePathPrefixes ! j @ diskUUIDToSerial volumeID]) = None"
  shows "\<exists>st' evs. ExponentialBackoffWithContext env (Suc n) (condition_func env volumeID) st
                     = (None, st')
           \<and> devicePath st'
               = filepath_Join [diskIDPath, sourcePathPrefixes ! j @ diskUUIDToSerial volumeID]
           \<and> trace st' = trace st @ EvCondition # evs \<and> (\<forall>e \<in> set evs. is_stat e)"
proof -
  let ?cand = "filepath_Join [diskIDPath, sourcePathPrefixes ! j @ diskUUIDToSerial volumeID]"
  let ?s1 = "record_event EvCondition (snd (ctx_poll env st))"
  let ?r = "stat_candidates env (diskUUIDToSerial volumeID) sourcePathPrefixes ?s1"
  have "fst ?r = (?cand, None)"
    using assms(2,3,4) by (intro stat_candidates_first_existing_index) simp_all
  moreover have "?cand \<noteq> []" by (rule candidate_nonempty)
  ultimately have c: "condition_func env volumeID ?s1 = ((True, None), (snd ?r)\<lparr>devicePath := ?cand\<rparr>)"
    unfolding condition_func_def getDevicePathBySerialID_def
    by (cases ?r) auto
  from stat_candidates_trace [of env "diskUUIDToSerial volumeID" sourcePathPrefixes ?s1]
  obtain evs where e: "trace (snd ?r) = trace ?s1 @ evs" "\<forall>e \<in> set evs. is_stat e"
    by blast
  have "ExponentialBackoffWithContext env (Suc n) (condition_func env volumeID) st
          = (None, (snd ?r)\<lparr>devicePath := ?cand\<rparr>)"
    unfolding backoff_Suc Let_def using assms(1) by (simp add: c)
  moreover have "trace ((snd ?r)\<lparr>devicePath := ?cand\<rparr>) = trace st @ EvCondition # evs"
    using e(1) by simp
  ultimately show ?thesis using e(2) by auto
qed

section \<open>The first check\<close>

lemma backoff_hard_error_on_first_check:
  assumes "ctx_oracle env (ctx_polls st) = None"
    and "stat_oracle env (stat_calls st)
           (filepath_Join [diskIDPath, ''virtio-'' @ diskUUIDToSerial volumeID]) = Some e"
    and "e \<noteq> ENOENT"
  shows "ExponentialBackoffWithContext env (Suc n) (condition_func env volumeID) st
           = (Some (PathError ''stat''
                     (filepath_Join [diskIDPath, ''virtio-'' @ diskUUIDToSerial volumeID]) e),
              record_event
                (EvStat (filepath_Join [diskIDPath, ''virtio-'' @ diskUUIDToSerial volumeID]) (Some e))
                (record_event EvCondition (snd (ctx_poll env st))
                   \<lparr>stat_calls := Suc (stat_calls st)\<rparr>))"
proof -
  let ?cand = "filepath_Join [diskIDPath, ''virtio-'' @ diskUUIDToSerial volumeID]"
  let ?s1 = "record_event EvCondition (snd (ctx_poll env st))"
  have "condition_func env volumeID ?s1
          = ((False, Some (PathError ''stat'' ?cand e)),
             record_event (EvStat ?cand (Some e)) (?s1\<lparr>stat_calls := Suc (stat_calls st)\<rparr>))"
    unfolding condition_func_def getDevicePathBySerialID_def sourcePathPrefixes_def
    using assms(2,3) by (simp add: os_Stat_def Let_def)
  then show ?thesis
    unfolding backoff_Suc Let_def using assms(1) by simp
qed

lemma GetDevicePath_first_check:
  assumes "ctx_oracle env (ctx_polls st) = None"
    and "j < length sourcePathPrefixes"
    and "\<forall>h < j. stat_oracle env (stat_calls st + h)
           (filepath_Join [diskIDPath, sourcePathPrefixes ! h @ diskUUIDToSerial volumeID])
             = Some ENOENT"
    and "stat_oracle env (stat_calls st + j)
           (filepath_Join [diskIDPath, sourcePathPrefixes ! j @ diskUUIDToSerial volumeID]) = None"
  shows "\<exists>st' evs. GetDevicePath env volumeID st
            = ((filepath_Join [diskIDPath, sourcePathPrefixes ! j @ diskUUIDToSerial volumeID], None), st')
          \<and> trace st' = trace st @ EvCondition # evs \<and> (\<forall>e \<in> set evs. is_stat e)"
proof -
  let ?st0 = "st\<lparr>devicePath := ''''\<rparr>"
  let ?cand = "filepath_Join [diskIDPath, sourcePathPrefixes ! j @ diskUUIDToSerial volumeID]"
  have "\<exists>st' evs. ExponentialBackoffWithContext env (Suc 14) (condition_func env volumeID) ?st0
                     = (None, st')
           \<and> devicePath st' = ?cand
           \<and> trace st' = trace ?st0 @ EvCondition # evs \<and> (\<forall>e \<in> set evs. is_stat e)"
    using assms by (intro backoff_found_on_first_check) simp_all
  then obtain st' evs where r:
    "ExponentialBackoffWithContext env backoff_Steps (condition_func env volumeID) ?st0 = (None, st')"
    "devicePath st' = ?cand" "trace st' = trace st @ EvCondition # evs" "\<forall>e \<in> set evs. is_stat e"
    unfolding backoff_Steps_def by auto
  have ne: "?cand \<noteq> []" by (rule candidate_nonempty)
  have "GetDevicePath env volumeID st = ((?cand, None), st')"
    unfolding GetDevicePath_unfold Let_def r(1) using r(2) ne by simp
  then show ?thesis using r(3,4) by blast
qed

text \<open>
  Claim C7, amended. If the caller's context is not done on entry, and on the very first
  check a candidate exists while every candidate before it in the priority order is
  reported as not existing, then \<open>GetDevicePath\<close> returns that candidate at once: the
  call triggers no rescan (it leaves no event of \<open>probeVolume\<close>) and never waits.
\<close>

theorem GetDevicePath_found_on_first_check:
  assumes "ctx_oracle env (ctx_polls st) = None"
    and "j < length sourcePathPrefixes"
    and "\<forall>h < j. stat_oracle env (stat_calls st + h)
           (filepath_Join [diskIDPath, sourcePathPrefixes ! h @ diskUUIDToSerial volumeID])
             = Some ENOENT"
    and "stat_oracle env (stat_calls st + j)
           (filepath_Join [diskIDPath, sourcePathPrefixes ! j @ diskUUIDToSerial volumeID]) = None"
  shows "fst (GetDevicePath env volumeID st)
           = (filepath_Join [diskIDPath, sourcePathPrefixes ! j @ diskUUIDToSerial volumeID], None)
         \<and> count_list (events_since st (snd (GetDevicePath env volumeID st))) EvWait = 0
         \<and> (\<forall>e \<in> set (events_since st (snd (GetDevicePath env volumeID st))).
               \<not> is_probe_event e)"
proof -
  let ?cand = "filepath_Join [diskIDPath, sourcePathPrefixes ! j @ diskUUIDToSerial volumeID]"
  from GetDevicePath_first_check [OF assms] obtain st' evs where
    res: "GetDevicePath env volumeID st = ((?cand, None), st')"
    and tr: "trace st' = trace st @ EvCondition # evs" and st: "\<forall>e \<in> set evs. is_stat e"
    by blast
  have ev: "events_since st st' = EvCondition # evs"
    using tr by (rule events_since_append)
  have "\<forall>e \<in> set (EvCondition # evs). e \<noteq> EvWait \<and> \<not> is_probe_event e"
    using st by (auto dest: is_probe_event_not_stat)
  then show ?thesis
    unfolding res fst_conv snd_conv ev by (auto intro!: count_notin)
qed

text \<open>
  Where only the \<open>scsi-\<close> candidate exists, the first check passes over the
  \<open>virtio-\<close> candidate and returns the \<open>scsi-\<close> one without a wait.
\<close>

theorem GetDevicePath_found_on_first_check_witness:
  "fst (GetDevicePath (static_host fs_scsi_only) ''abc'' init_state)
     = (''/dev/disk/by-id/scsi-abc'', None)
   \<and> count_list (events_since init_state
        (snd (GetDevicePath (static_host fs_scsi_only) ''abc'' init_state))) EvWait = 0"
  using GetDevicePath_found_on_first_check
    [of "static_host fs_scsi_only" init_state 1 "''abc''"]
  by (simp add: sourcePathPrefixes_def static_host_def fs_scsi_only_def init_state_def
      diskUUIDToSerial_abc candidates_abc)

lemma GetDevicePath_first_denied:
  "fst (GetDevicePath (static_host fs_first_denied) ''abc'' init_state)
     = ('''', Some (DevicePathEmpty ''abc''))"
proof -
  have "ExponentialBackoffWithContext (static_host fs_first_denied) (Suc 14)
          (condition_func (static_host fs_first_denied) ''abc'') (init_state\<lparr>devicePath := ''''\<rparr>)
        = (Some (PathError ''stat''
                   (filepath_Join [diskIDPath, ''virtio-'' @ diskUUIDToSerial ''abc'']) EACCES),
           record_event
             (EvStat (filepath_Join [diskIDPath, ''virtio-'' @ diskUUIDToSerial ''abc'']) (Some EACCES))
             (record_event EvCondition
                (snd (ctx_poll (static_host fs_first_denied) (init_state\<lparr>devicePath := ''''\<rparr>)))
                \<lparr>stat_calls := Suc (stat_calls (init_state\<lparr>devicePath := ''''\<rparr>))\<rparr>))"
    by (rule backoff_hard_error_on_first_check)
       (simp_all add: static_host_def fs_first_denied_def diskUUIDToSerial_abc candidates_abc)
  then show ?thesis
    unfolding GetDevicePath_unfold Let_def backoff_Steps_def
    by (simp add: init_state_def)
qed

lemma GetDevicePath_cancelled_on_entry:
  "fst (GetDevicePath (cancelled_host fs_present 0) ''abc'' init_state)
     = ('''', Some (NotFoundInTime ''abc''))"
proof -
  have steps: "backoff_Steps = Suc 14" by (simp add: backoff_Steps_def)
  show ?thesis
    unfolding GetDevicePath_unfold steps backoff_Suc Let_def
    by (simp add: ctx_poll_def cancelled_host_def init_state_def)
qed

text \<open>
  Claim C7, as the specification words it, promises the path as soon as any candidate
  exists on the first check. Two hosts show that it is not so: where \<open>os.Stat\<close> of the
  \<open>virtio-\<close> candidate is refused while the \<open>scsi-\<close> candidate exists, the call fails;
  and where every candidate exists but the context is already done on entry, the call
  fails without checking anything.
\<close>

theorem GetDevicePath_found_on_first_check_counterexample:
  "fs_first_denied ''/dev/disk/by-id/scsi-abc'' = None
   \<and> fst (GetDevicePath (static_host fs_first_denied) ''abc'' init_state)
       = ('''', Some (DevicePathEmpty ''abc''))
   \<and> fs_present ''/dev/disk/by-id/virtio-abc'' = None
   \<and> fst (GetDevicePath (cancelled_host fs_present 0) ''abc'' init_state)
       = ('''', Some (NotFoundInTime ''abc''))"
  using GetDevicePath_first_denied GetDevicePath_cancelled_on_entry
  by (simp add: fs_first_denied_def fs_present_def)

text \<open>
  \<open>GetDevicePath\<close> has three exits, and none of them returns the error of the loop.
\<close>

lemma GetDevicePath_errors:
  "snd (fst (GetDevicePath env volumeID st))
     \<in> {None, Some (NotFoundInTime volumeID), Some (DevicePathEmpty volumeID)}"
  unfolding GetDevicePath_unfold Let_def by simp

text \<open>
  Claim C2 says that an \<open>os.Stat\<close> error other than "does not exist" ends the
  resolution at once and is returned to the caller. On a host that refuses every
  \<open>os.Stat\<close> with \<open>EACCES\<close>, the backoff loop does stop after one attempt and one check
  and hands the path error to \<open>GetDevicePath\<close>; but \<open>GetDevicePath\<close> looks only at
  \<open>wait.Interrupted(err)\<close> and at \<open>devicePath\<close>, so what the caller gets is the
  "device path was empty" error, and the path error is lost.
\<close>

theorem GetDevicePath_drops_stat_error:
  "fst (ExponentialBackoffWithContext (static_host fs_denied) backoff_Steps
          (condition_func (static_host fs_denied) ''abc'') (init_state\<lparr>devicePath := ''''\<rparr>))
     = Some (PathError ''stat'' ''/dev/disk/by-id/virtio-abc'' EACCES)
   \<and> fst (GetDevicePath (static_host fs_denied) ''abc'' init_state)
       = ('''', Some (DevicePathEmpty ''abc''))
   \<and> trace (snd (GetDevicePath (static_host fs_denied) ''abc'' init_state))
       = [EvCondition, EvStat ''/dev/disk/by-id/virtio-abc'' (Some EACCES)]"
proof -
  have "ExponentialBackoffWithContext (static_host fs_denied) (Suc 14)
          (condition_func (static_host fs_denied) ''abc'') (init_state\<lparr>devicePath := ''''\<rparr>)
        = (Some (PathError ''stat''
                   (filepath_Join [diskIDPath, ''virtio-'' @ diskUUIDToSerial ''abc'']) EACCES),
           record_event
             (EvStat (filepath_Join [diskIDPath, ''virtio-'' @ diskUUIDToSerial ''abc'']) (Some EACCES))
             (record_event EvCondition
                (snd (ctx_poll (static_host fs_denied) (init_state\<lparr>devicePath := ''''\<rparr>)))
                \<lparr>stat_calls := Suc (stat_calls (init_state\<lparr>devicePath := ''''\<rparr>))\<rparr>))"
    by (rule backoff_hard_error_on_first_check)
       (simp_all add: static_host_def fs_denied_def)
  then show ?thesis
    unfolding GetDevicePath_unfold Let_def backoff_Steps_def
    by (simp add: init_state_def diskUUIDToSerial_abc candidates_abc)
qed

text \<open>
  Where every candidate exists, the call returns the \<open>virtio-\<close> candidate, and the
  successful check of that path is in the history of the call.
\<close>

theorem GetDevicePath_returns_verified_path_witness:
  "fst (GetDevicePath (static_host fs_present) ''abc'' init_state)
     = (''/dev/disk/by-id/virtio-abc'', None)
   \<and> EvStat ''/dev/disk/by-id/virtio-abc'' None
       \<in> set (events_since init_state (snd (GetDevicePath (static_host fs_present) ''abc'' init_state)))"
proof -
  have "\<exists>st' evs. GetDevicePath (static_host fs_present) ''abc'' init_state
            = ((filepath_Join [diskIDPath, sourcePathPrefixes ! 0 @ diskUUIDToSerial ''abc''], None), st')
          \<and> trace st' = trace init_state @ EvCondition # evs \<and> (\<forall>e \<in> set evs. is_stat e)"
    by (rule GetDevicePath_first_check)
       (simp_all add: sourcePathPrefixes_def static_host_def fs_present_def)
  then have r: "fst (GetDevicePath (static_host fs_present) ''abc'' init_state)
                  = (''/dev/disk/by-id/virtio-abc'', None)"
    by (auto simp: sourcePathPrefixes_def diskUUIDToSerial_abc candidates_abc)
  from GetDevicePath_returns_verified_path [OF r] show ?thesis
    using r by auto
qed

text \<open>
  Where nothing exists, the call ends with the not-found error both when the context is
  never done (the steps run out) and when it is done from its third observation on.
\<close>

theorem GetDevicePath_not_found_witness:
  "fst (GetDevicePath (static_host fs_absent) ''abc'' init_state)
     = ('''', Some (NotFoundInTime ''abc''))
   \<and> fst (GetDevicePath (cancelled_host fs_absent 3) ''abc'' init_state)
     = ('''', Some (NotFoundInTime ''abc''))"
  using GetDevicePath_not_found [of "static_host fs_absent" "''abc''" init_state]
    GetDevicePath_not_found [of "cancelled_host fs_absent 3" "''abc''" init_state]
  by (simp add: static_host_def cancelled_host_def fs_absent_def)

section \<open>Rescan failures do not reach the resolver\<close>

lemma same_view_record_event:
  "same_view s1 s2 \<Longrightarrow> same_view (record_event e1 s1) (record_event e2 s2)"
  by (simp add: same_view_def)

lemma stat_candidates_agree:
  assumes "stat_oracle env1 = stat_oracle env2" and "same_view s1 s2"
  shows "fst (stat_candidates env1 serial ps s1) = fst (stat_candidates env2 serial ps s2)
         \<and> same_view (snd (stat_candidates env1 serial ps s1))
                      (snd (stat_candidates env2 serial ps s2))"
  using assms(2)
proof (induction ps arbitrary: s1 s2)
  case Nil
  then show ?case by simp
next
  case (Cons prefix rest)
  let ?source = "filepath_Join [diskIDPath, prefix @ serial]"
  let ?r = "stat_oracle env1 (stat_calls s1) ?source"
  let ?t1 = "record_event (EvStat ?source ?r) (s1\<lparr>stat_calls := Suc (stat_calls s1)\<rparr>)"
  let ?t2 = "record_event (EvStat ?source ?r) (s2\<lparr>stat_calls := Suc (stat_calls s2)\<rparr>)"
  have r2: "stat_oracle env2 (stat_calls s2) ?source = ?r"
    using assms(1) Cons.prems by (simp add: same_view_def)
  have sv: "same_view ?t1 ?t2"
    using Cons.prems by (simp add: same_view_def)
  note IH = Cons.IH [OF sv]
  show ?case
    using sv IH by (cases ?r) (auto simp: os_Stat_def Let_def r2)
qed

lemma condition_func_unfold:
  "condition_func env volumeID st =
     (let r = getDevicePathBySerialID env volumeID st
      in case snd (fst r) of
           Some err \<Rightarrow> ((False, Some err), snd r)
         | None \<Rightarrow>
             if fst (fst r) \<noteq> '''' then ((True, None), (snd r)\<lparr>devicePath := fst (fst r)\<rparr>)
             else ((False, None), probeVolume env (snd r)))"
  by (simp add: condition_func_def Let_def split: prod.splits option.splits)

lemma same_view_probeVolume:
  "same_view s1 s2 \<Longrightarrow> same_view (probeVolume env1 s1) (probeVolume env2 s2)"
  by (simp add: same_view_def probeVolume_frame)

lemma condition_func_agree:
  assumes "stat_oracle env1 = stat_oracle env2" and "same_view s1 s2"
  shows "fst (condition_func env1 volumeID s1) = fst (condition_func env2 volumeID s2)
         \<and> same_view (snd (condition_func env1 volumeID s1))
                      (snd (condition_func env2 volumeID s2))"
proof -
  let ?r1 = "getDevicePathBySerialID env1 volumeID s1"
  let ?r2 = "getDevicePathBySerialID env2 volumeID s2"
  from stat_candidates_agree [OF assms, of "diskUUIDToSerial volumeID" sourcePathPrefixes]
  have eq: "fst ?r1 = fst ?r2" and sv: "same_view (snd ?r1) (snd ?r2)"
    unfolding getDevicePathBySerialID_def by simp_all
  have sv': "same_view ((snd ?r1)\<lparr>devicePath := p\<rparr>) ((snd ?r2)\<lparr>devicePath := p\<rparr>)" for p
    using sv by (simp add: same_view_def)
  show ?thesis
    unfolding condition_func_unfold Let_def eq
    by (cases "snd (fst ?r2)") (simp_all add: sv sv' same_view_probeVolume)
qed

lemma backoff_agree:
  assumes "stat_oracle env1 = stat_oracle env2" and "ctx_oracle env1 = ctx_oracle env2"
    and "same_view s1 s2"
  shows "fst (ExponentialBackoffWithContext env1 n (condition_func env1 volumeID) s1)
           = fst (ExponentialBackoffWithContext env2 n (condition_func env2 volumeID) s2)
         \<and> same_view (snd (ExponentialBackoffWithContext env1 n (condition_func env1 volumeID) s1))
                      (snd (ExponentialBackoffWithContext env2 n (condition_func env2 volumeID) s2))"
  using assms(3)
proof (induction n arbitrary: s1 s2)
  case 0
  then show ?case by simp
next
  case (Suc n)
  let ?p1 = "snd (ctx_poll env1 s1)" and ?p2 = "snd (ctx_poll env2 s2)"
  let ?c1 = "condition_func env1 volumeID (record_event EvCondition ?p1)"
  let ?c2 = "condition_func env2 volumeID (record_event EvCondition ?p2)"
  let ?w1 = "snd (backoff_wait env1 (snd ?c1))" and ?w2 = "snd (backoff_wait env2 (snd ?c2))"
  have poll: "fst (ctx_poll env1 s1) = fst (ctx_poll env2 s2)"
    using assms(2) Suc.prems by (simp add: same_view_def)
  have svp: "same_view ?p1 ?p2"
    using Suc.prems by (simp add: same_view_def)
  from condition_func_agree [OF assms(1) same_view_record_event [OF svp]]
  have c: "fst ?c1 = fst ?c2" and svc: "same_view (snd ?c1) (snd ?c2)"
    by simp_all
  have wait: "fst (backoff_wait env1 (snd ?c1)) = fst (backoff_wait env2 (snd ?c2))"
    using assms(2) svc by (simp add: same_view_def)
  have svw: "same_view ?w1 ?w2"
    using svc by (simp add: same_view_def)
  note IH = Suc.IH [OF svw]
  show ?case
    unfolding backoff_Suc Let_def poll c wait
    by (cases "fst (ctx_poll env2 s2)"; cases "fst (backoff_wait env2 (snd ?c2))")
       (simp_all add: svp svc svw IH del: ctx_poll_simps backoff_wait_simps)
qed

text \<open>
  Claim C8. \<open>probeVolume\<close> has no result to propagate, and it changes nothing the
  resolution loop reads. Two hosts that answer \<open>os.Stat\<close> and the context alike give
  the same result of \<open>GetDevicePath\<close>, however differently their directory of SCSI
  hosts, their \<open>scan\<close> files and their \<open>udevadm trigger\<close> behave.
\<close>

theorem probeVolume_failures_not_propagated:
  assumes "stat_oracle env1 = stat_oracle env2" and "ctx_oracle env1 = ctx_oracle env2"
  shows "fst (GetDevicePath env1 volumeID st) = fst (GetDevicePath env2 volumeID st)
         \<and> stat_calls (probeVolume env1 st) = stat_calls st
         \<and> ctx_polls (probeVolume env1 st) = ctx_polls st
         \<and> devicePath (probeVolume env1 st) = devicePath st"
proof -
  let ?st0 = "st\<lparr>devicePath := ''''\<rparr>"
  have "same_view ?st0 ?st0" by (simp add: same_view_def)
  from backoff_agree [OF assms this, of backoff_Steps volumeID]
  have "fst (GetDevicePath env1 volumeID st) = fst (GetDevicePath env2 volumeID st)"
    unfolding GetDevicePath_unfold Let_def by (simp add: same_view_def)
  then show ?thesis by (simp add: probeVolume_frame)
qed

text \<open>
  A host whose rescans all succeed and a host whose rescans all fail, with the same empty
  file system: the two calls end alike.
\<close>

theorem probeVolume_failures_not_propagated_witness:
  "fst (GetDevicePath (static_host fs_absent) ''abc'' init_state)
     = fst (GetDevicePath (broken_rescan_host fs_absent) ''abc'' init_state)
   \<and> devicePath (probeVolume (static_host fs_absent) init_state) = devicePath init_state"
  using probeVolume_failures_not_propagated
    [of "static_host fs_absent" "broken_rescan_host fs_absent" "''abc''" init_state]
  by (simp add: static_host_def broken_rescan_host_def)

end
